theory Spec2Isabelle
  imports Main "HOL-Library.Word"
begin

section \<open>The NOVA write path (dax.c): data model\<close>

text \<open>
  The model follows \<^verbatim>\<open>src/dax.c\<close>. File positions, lengths and block numbers are
  natural numbers (the kernel keeps them far below \<open>2^63\<close>, so no wrap-around is
  modelled); return values are integers, negative for an errno. A shift right by
  \<open>PAGE_SHIFT\<close> is \<open>div PAGE_SIZE\<close> and a mask with \<open>PAGE_SIZE - 1\<close> is
  \<open>mod PAGE_SIZE\<close>.
\<close>

type_synonym byte = "8 word"

definition PAGE_SHIFT :: nat where "PAGE_SHIFT = 12"
definition PAGE_SIZE :: nat where "PAGE_SIZE = 4096"

text \<open>
  Modelled from the spec: the superblock's block size, which the mount code (not part
  of the sources) sets to the page size, and the block size of a file inode, which
  NOVA keeps at 4096 bytes as well (the spec's blocks are 4096 bytes long).
\<close>

definition s_blocksize :: nat where "s_blocksize = 4096"
definition s_blocksize_bits :: nat where "s_blocksize_bits = 12"
definition nova_inode_blk_size :: nat where "nova_inode_blk_size = 4096"

text \<open>The size of one log entry and the offset of a log page's tail (nova.h).\<close>

definition entry_size :: nat where "entry_size = 64"
definition LOG_BLOCK_TAIL :: nat where "LOG_BLOCK_TAIL = 4064"

definition EIO :: int where "EIO = 5"
definition ENOMEM :: int where "ENOMEM = 12"
definition EACCES :: int where "EACCES = 13"
definition EFAULT :: int where "EFAULT = 14"
definition EINVAL :: int where "EINVAL = 22"
definition ENOSPC :: int where "ENOSPC = 28"

datatype nova_entry_type = FILE_WRITE | MMAP_WRITE | OTHER_ENTRY

record nova_file_write_entry =
  entry_type :: nova_entry_type
  reassigned :: nat
  updating :: nat
  epoch_id :: nat
  pgoff :: nat
  num_pages :: nat
  invalid_pages :: nat
  block :: nat
  mtime :: nat
  e_size :: nat

text \<open>
  The calls of the write path that the claims speak about are recorded, in order, in
  a ghost trace of the state.
\<close>

datatype event =
    EvSbStartWrite | EvSbEndWrite | EvInodeLock | EvInodeUnlock
  | EvAlloc nat nat | EvFree nat nat
  | EvAppend nat | EvInplaceUpdate nat
  | EvUpdateInode nat | EvReassign nat | EvAssign nat

text \<open>
  One file on one file system: persistent memory (\<open>pmem\<close>, byte addressed; block
  \<open>b\<close> is the bytes from \<open>b * 4096\<close>), the checksum table, the inode log (entries by
  address, and the next-page pointer of each log page), the radix tree of the inode
  (page offset to the address of its write entry), the inode fields, the allocator
  (its free data blocks and its policy), the pages mapped for writing, the epoch, the
  module parameters and what the kernel around the file system answers
  (\<open>remove_privs_err\<close> is the errno of \<open>file_remove_privs\<close>, 0 for success).
\<close>

record nova_state =
  pmem :: "nat \<Rightarrow> byte"
  csum_tab :: "nat \<Rightarrow> nat"
  csum_fn :: "byte list \<Rightarrow> nat"
  pmem_poison :: "nat set"
  log :: "nat \<Rightarrow> nova_file_write_entry"
  next_page :: "nat \<Rightarrow> nat"
  tree :: "(nat \<times> nat) list"
  log_tail :: nat
  alter_log_tail :: nat
  pi_log_tail :: nat
  pi_alter_log_tail :: nat
  pi_i_size :: nat
  pi_i_blocks :: nat
  sih_i_size :: nat
  sih_i_blocks :: nat
  i_size :: nat
  i_blocks :: nat
  i_mtime :: nat
  i_ctime :: nat
  free_blocks :: "nat set"
  alloc_pick :: "nat set \<Rightarrow> nat \<Rightarrow> nat \<Rightarrow> (nat \<times> nat) option"
  vma_pages :: "nat set"
  mapping_mapped :: bool
  f_o_append :: bool
  s_epoch_id :: nat
  inplace_data_updates :: int
  data_csum :: int
  data_parity :: int
  current_time_sec :: nat
  remove_privs_err :: nat
  kzalloc_fails :: bool
  trace :: "event list"

definition log_event :: "event \<Rightarrow> nova_state \<Rightarrow> nova_state" where
  "log_event e s = s\<lparr>trace := trace s @ [e]\<rparr>"

subsection \<open>Persistent memory and buffers\<close>

definition pmem_write :: "(nat \<Rightarrow> byte) \<Rightarrow> nat \<Rightarrow> byte list \<Rightarrow> (nat \<Rightarrow> byte)" where
  "pmem_write m dst bs = (\<lambda>a. if dst \<le> a \<and> a < dst + length bs then bs ! (a - dst) else m a)"

definition pmem_read :: "(nat \<Rightarrow> byte) \<Rightarrow> nat \<Rightarrow> nat \<Rightarrow> byte list" where
  "pmem_read m src n = map m [src..<src + n]"

definition nova_get_block_off :: "nat \<Rightarrow> nat" where
  "nova_get_block_off blocknr = blocknr * PAGE_SIZE"

text \<open>
  \<open>nova_get_block\<close> turns an offset into a pointer; offset 0 gives the null pointer.
  Pointers into persistent memory are the offsets themselves.
\<close>

definition nova_get_block :: "nat \<Rightarrow> nat" where
  "nova_get_block off = off"

text \<open>
  The user buffer of a write is the list of its readable bytes and a position in it:
  a copy of \<open>n\<close> bytes from position \<open>upos\<close> copies what is there and returns the
  number of bytes it could not copy (the bytes past the end of the list fault).
\<close>

definition memcpy_to_pmem_nocache ::
  "nova_state \<Rightarrow> nat \<Rightarrow> byte list \<Rightarrow> nat \<Rightarrow> nat \<Rightarrow> nat \<times> nova_state" where
  "memcpy_to_pmem_nocache s dst ubuf upos n =
     (let bs = take n (drop upos ubuf)
      in (n - length bs, s\<lparr>pmem := pmem_write (pmem s) dst bs\<rparr>))"

definition copy_from_user ::
  "(nat \<Rightarrow> byte) \<Rightarrow> nat \<Rightarrow> byte list \<Rightarrow> nat \<Rightarrow> nat \<Rightarrow> nat \<times> (nat \<Rightarrow> byte)" where
  "copy_from_user blockbuf dst ubuf upos n =
     (let bs = take n (drop upos ubuf)
      in (n - length bs, pmem_write blockbuf dst bs))"

subsection \<open>The allocator interface\<close>

text \<open>
  Modelled from the spec: the block allocator (balloc.c is not part of the sources).
  \<open>allocate(hint, count)\<close> gives a run of at most \<open>count\<close> contiguous free blocks,
  chosen by the allocator's policy \<open>alloc_pick\<close>, or fails with \<open>OutOfSpace\<close>;
  \<open>free(start, count)\<close> gives a run back. The block number of the caller is
  written only on success.
\<close>

definition nova_new_data_blocks ::
  "nova_state \<Rightarrow> nat \<Rightarrow> nat \<Rightarrow> nat \<Rightarrow> int \<times> nat \<times> nova_state" where
  "nova_new_data_blocks s blocknr start_blk num =
     (case alloc_pick s (free_blocks s) start_blk num of
        None \<Rightarrow> (- ENOSPC, blocknr, s)
      | Some (b, k) \<Rightarrow>
          if 0 < k \<and> k \<le> num \<and> {b..<b + k} \<subseteq> free_blocks s
          then (int k, b,
                log_event (EvAlloc b k) (s\<lparr>free_blocks := free_blocks s - {b..<b + k}\<rparr>))
          else (- ENOSPC, blocknr, s))"

definition nova_free_data_blocks :: "nova_state \<Rightarrow> nat \<Rightarrow> nat \<Rightarrow> nova_state" where
  "nova_free_data_blocks s blocknr num =
     log_event (EvFree blocknr num)
       (s\<lparr>free_blocks := free_blocks s \<union> {blocknr..<blocknr + num}\<rparr>)"

subsection \<open>The extent log and the radix tree\<close>

text \<open>
  Modelled from the spec: the helpers of nova.h and log.c that dax.c calls and that
  are not part of the sources. \<open>find_entry_covering\<close> looks the page up in the
  radix tree; \<open>find_next_entry\<close> gives the entry of the smallest mapped page at or
  after the given one; \<open>get_nvmm\<close> is the physical block of a page under an entry.
\<close>

definition nova_get_write_entry :: "nova_state \<Rightarrow> nat \<Rightarrow> nat option" where
  "nova_get_write_entry s blocknr = map_of (tree s) blocknr"

definition nova_find_next_entry :: "nova_state \<Rightarrow> nat \<Rightarrow> nat option" where
  "nova_find_next_entry s pg =
     (let ks = filter (\<lambda>k. pg \<le> k) (map fst (tree s))
      in if ks = [] then None else map_of (tree s) (Min (set ks)))"

definition get_nvmm :: "nova_state \<Rightarrow> nat \<Rightarrow> nat \<Rightarrow> nat" where
  "get_nvmm s entry pg = block (log s entry) div PAGE_SIZE + pg - pgoff (log s entry)"

definition nova_find_pgoff_in_vma :: "nova_state \<Rightarrow> nat \<Rightarrow> bool" where
  "nova_find_pgoff_in_vma s index = (index \<in> vma_pages s)"

definition nova_get_epoch_id :: "nova_state \<Rightarrow> nat" where
  "nova_get_epoch_id s = s_epoch_id s"

text \<open>
  Modelled from the spec: the checksum engine (checksum.c is not part of the
  sources). One integrity code per block, computed over the whole block image after a
  write, and recomputed and compared for every block a verified range touches.
\<close>

definition block_bytes :: "nova_state \<Rightarrow> nat \<Rightarrow> byte list" where
  "block_bytes s b = pmem_read (pmem s) (b * PAGE_SIZE) PAGE_SIZE"

definition nova_update_block_csum_parity ::
  "nova_state \<Rightarrow> (nat \<Rightarrow> byte) \<Rightarrow> nat \<Rightarrow> nova_state" where
  "nova_update_block_csum_parity s blockbuf blocknr =
     (if data_csum s > 0
      then s\<lparr>csum_tab := (csum_tab s)(blocknr := csum_fn s (pmem_read blockbuf 0 s_blocksize))\<rparr>
      else s)"

definition nova_verify_data_csum :: "nova_state \<Rightarrow> nat \<Rightarrow> nat \<Rightarrow> nat \<Rightarrow> bool" where
  "nova_verify_data_csum s blocknr offset bytes =
     list_all (\<lambda>b. csum_fn s (block_bytes s b) = csum_tab s b)
       [blocknr + offset div s_blocksize ..< blocknr + (offset + bytes - 1) div s_blocksize + 1]"

text \<open>
  A read of persistent memory into a kernel buffer fails when the medium reports a
  machine check for the block (\<open>pmem_poison\<close>).
\<close>

definition memcpy_from_pmem ::
  "nova_state \<Rightarrow> (nat \<Rightarrow> byte) \<Rightarrow> nat \<Rightarrow> nat \<Rightarrow> nat \<Rightarrow> int \<times> (nat \<Rightarrow> byte)" where
  "memcpy_from_pmem s blockbuf dst src n =
     (if src div PAGE_SIZE \<in> pmem_poison s then (- EFAULT, blockbuf)
      else (0, pmem_write blockbuf dst (pmem_read (pmem s) src n)))"

text \<open>
  Modelled from the spec: the log of the inode (log.c is not part of the sources).
  A log page holds entries of 64 bytes up to its tail at offset 4064, where the
  pointer to the next page stands. \<open>append_entry\<close> writes the entry after the tail
  of the transaction and fails with \<open>OutOfSpace\<close> when the log cannot be extended;
  the pages linked in the state are the log space there is. \<open>commit\<close> stores the
  tail of the transaction. \<open>update_entry_inplace\<close> changes the size, the epoch and
  the "updating" flag of an entry and nothing else.
\<close>

record nova_inode_update =
  tail :: nat
  alter_tail :: nat
  curr_entry :: nat
  alter_entry :: nat

definition is_last_entry :: "nat \<Rightarrow> nat \<Rightarrow> bool" where
  "is_last_entry curr_p sz = (curr_p mod PAGE_SIZE + sz > LOG_BLOCK_TAIL)"

definition next_log_page :: "nova_state \<Rightarrow> nat \<Rightarrow> nat" where
  "next_log_page s curr_p = next_page s (curr_p div PAGE_SIZE)"

definition nova_get_append_head :: "nova_state \<Rightarrow> nat \<Rightarrow> nat" where
  "nova_get_append_head s tl_p =
     (if tl_p = 0 then 0
      else if is_last_entry tl_p entry_size then next_log_page s tl_p
      else tl_p)"

definition nova_append_file_write_entry ::
  "nova_state \<Rightarrow> nova_file_write_entry \<Rightarrow> nova_inode_update
     \<Rightarrow> int \<times> nova_state \<times> nova_inode_update" where
  "nova_append_file_write_entry s entry_data update =
     (let curr_p = nova_get_append_head s (tail update)
      in if curr_p = 0 then (- ENOSPC, s, update)
         else (0, log_event (EvAppend curr_p) (s\<lparr>log := (log s)(curr_p := entry_data)\<rparr>),
               update\<lparr>curr_entry := curr_p, tail := curr_p + entry_size\<rparr>))"

definition nova_update_inode :: "nova_state \<Rightarrow> nova_inode_update \<Rightarrow> nova_state" where
  "nova_update_inode s update =
     log_event (EvUpdateInode (tail update))
       (s\<lparr>log_tail := tail update, alter_log_tail := alter_tail update,
          pi_log_tail := tail update, pi_alter_log_tail := alter_tail update,
          pi_i_size := i_size s, pi_i_blocks := sih_i_blocks s\<rparr>)"

definition nova_set_write_entry_updating :: "nova_state \<Rightarrow> nat \<Rightarrow> nat \<Rightarrow> nova_state" where
  "nova_set_write_entry_updating s entry val =
     s\<lparr>log := (log s)(entry := (log s entry)\<lparr>updating := val\<rparr>)\<rparr>"

definition nova_inplace_update_write_entry ::
  "nova_state \<Rightarrow> nat \<Rightarrow> nat \<Rightarrow> nat \<Rightarrow> nova_state" where
  "nova_inplace_update_write_entry s entry epoch file_size =
     log_event (EvInplaceUpdate entry)
       (s\<lparr>log := (log s)(entry := (log s entry)\<lparr>e_size := file_size, epoch_id := epoch,
                                                 updating := 0\<rparr>)\<rparr>)"

text \<open>
  Modelled from the spec: the reassignment of one entry (\<open>nova_assign_write_entry\<close>,
  log.c). Every page the entry covers is linked to it; a page taken from an older
  entry is counted invalid there, and the blocks of an entry all of whose pages are
  invalid go back to the allocator.
\<close>

definition assign_page :: "nat \<Rightarrow> bool \<Rightarrow> nova_state \<Rightarrow> nat \<Rightarrow> nova_state" where
  "assign_page entry free s curr_pgoff =
     (case map_of (tree s) curr_pgoff of
        None \<Rightarrow> s\<lparr>tree := (curr_pgoff, entry) # tree s\<rparr>
      | Some old \<Rightarrow>
          (let e = (log s old)\<lparr>reassigned := 1, invalid_pages := invalid_pages (log s old) + 1\<rparr>;
               s1 = s\<lparr>log := (log s)(old := e)\<rparr>;
               s2 = (if free \<and> invalid_pages e = num_pages e
                     then nova_free_data_blocks s1 (block e div PAGE_SIZE) (num_pages e)
                     else s1)
           in s2\<lparr>tree := (curr_pgoff, entry) # tree s2\<rparr>))"

definition nova_assign_write_entry :: "nova_state \<Rightarrow> nat \<Rightarrow> bool \<Rightarrow> nova_state" where
  "nova_assign_write_entry s entry free =
     foldl (assign_page entry free) (log_event (EvAssign entry) s)
       [pgoff (log s entry) ..< pgoff (log s entry) + num_pages (log s entry)]"

subsection \<open>The reassignment pass and the cleanup of a failed write\<close>

text \<open>
  The two walks over the log follow a chain of pages that the code does not bound;
  a walk that never ends is the value \<open>None\<close>.
\<close>

partial_function (option) reassign_loop :: "nova_state \<Rightarrow> nat \<Rightarrow> (int \<times> nova_state) option" where
  [code]: "reassign_loop s curr_p =
     (if curr_p \<noteq> 0 \<and> curr_p \<noteq> log_tail s then
        (if (if is_last_entry curr_p entry_size then next_log_page s curr_p else curr_p) = 0
         then Some (- EINVAL, s)
         else if entry_type (log s (if is_last_entry curr_p entry_size
                                     then next_log_page s curr_p else curr_p)) \<noteq> FILE_WRITE
         then reassign_loop s
                ((if is_last_entry curr_p entry_size then next_log_page s curr_p else curr_p)
                 + entry_size)
         else reassign_loop
                (nova_assign_write_entry s
                   (if is_last_entry curr_p entry_size then next_log_page s curr_p else curr_p)
                   True)
                ((if is_last_entry curr_p entry_size then next_log_page s curr_p else curr_p)
                 + entry_size))
      else Some (0, s))"

definition nova_reassign_file_tree :: "nova_state \<Rightarrow> nat \<Rightarrow> (int \<times> nova_state) option" where
  "nova_reassign_file_tree s begin_tail = reassign_loop (log_event (EvReassign begin_tail) s) begin_tail"

partial_function (option) cleanup_loop ::
  "nova_state \<Rightarrow> nat \<Rightarrow> nat \<Rightarrow> (int \<times> nova_state) option" where
  [code]: "cleanup_loop s curr_p end_tail =
     (if curr_p \<noteq> end_tail then
        (if (if is_last_entry curr_p entry_size then next_log_page s curr_p else curr_p) = 0
         then Some (- EINVAL, s)
         else if entry_type (log s (if is_last_entry curr_p entry_size
                                     then next_log_page s curr_p else curr_p)) \<noteq> FILE_WRITE
         then cleanup_loop s
                ((if is_last_entry curr_p entry_size then next_log_page s curr_p else curr_p)
                 + entry_size) end_tail
         else cleanup_loop
                (nova_free_data_blocks s
                   (block (log s (if is_last_entry curr_p entry_size
                                  then next_log_page s curr_p else curr_p)) div PAGE_SIZE)
                   (num_pages (log s (if is_last_entry curr_p entry_size
                                      then next_log_page s curr_p else curr_p))))
                ((if is_last_entry curr_p entry_size then next_log_page s curr_p else curr_p)
                 + entry_size) end_tail)
      else Some (0, s))"

definition nova_cleanup_incomplete_write ::
  "nova_state \<Rightarrow> nat \<Rightarrow> int \<Rightarrow> nat \<Rightarrow> nat \<Rightarrow> (int \<times> nova_state) option" where
  "nova_cleanup_incomplete_write s blocknr allocated begin_tail end_tail =
     (let s1 = (if blocknr > 0 \<and> allocated > 0
                then nova_free_data_blocks s blocknr (nat allocated) else s)
      in if begin_tail = 0 \<or> end_tail = 0 then Some (0, s1)
         else cleanup_loop s1 begin_tail end_tail)"

text \<open>
  The time of a write is kept in 32 bits (the local \<open>u32 time\<close> of the writers, the
  parameter \<open>u32 time\<close> and the field \<open>mtime\<close> of the entry).
\<close>

definition nova_init_file_write_entry ::
  "nat \<Rightarrow> nat \<Rightarrow> nat \<Rightarrow> nat \<Rightarrow> nat \<Rightarrow> nat \<Rightarrow> nova_file_write_entry" where
  "nova_init_file_write_entry epoch pg num blocknr time file_size =
     \<lparr>entry_type = FILE_WRITE, reassigned = 0, updating = 0, epoch_id = epoch,
      pgoff = pg, num_pages = num, invalid_pages = 0,
      block = nova_get_block_off blocknr, mtime = time mod 2 ^ 32, e_size = file_size\<rparr>"

subsection \<open>The partial-block merger\<close>

definition nova_copy_partial_block ::
  "nova_state \<Rightarrow> nat \<Rightarrow> nat \<Rightarrow> nat \<Rightarrow> nat \<Rightarrow> nat \<Rightarrow> nova_state" where
  "nova_copy_partial_block s entry index offset len kmem =
     (let nvmm = get_nvmm s entry index;
          ptr = nova_get_block (nvmm * PAGE_SIZE)
      in if ptr \<noteq> 0
         then s\<lparr>pmem := pmem_write (pmem s) (kmem + offset) (pmem_read (pmem s) (ptr + offset) len)\<rparr>
         else s)"

definition nova_handle_partial_block ::
  "nova_state \<Rightarrow> nat option \<Rightarrow> nat \<Rightarrow> nat \<Rightarrow> nat \<Rightarrow> nat \<Rightarrow> nova_state" where
  "nova_handle_partial_block s entry index offset len kmem =
     (case entry of
        None \<Rightarrow> s\<lparr>pmem := pmem_write (pmem s) (kmem + offset) (replicate len 0)\<rparr>
      | Some e \<Rightarrow> nova_copy_partial_block s e index offset len kmem)"

definition nova_handle_head_tail_blocks :: "nova_state \<Rightarrow> nat \<Rightarrow> nat \<Rightarrow> nat \<Rightarrow> nova_state" where
  "nova_handle_head_tail_blocks s pos count kmem =
     (let offset0 = pos mod s_blocksize;
          num_blocks = (count + offset0 - 1) div s_blocksize + 1;
          offset = pos mod nova_inode_blk_size;
          start_blk = pos div s_blocksize;
          end_blk = start_blk + num_blocks - 1;
          s1 = (if offset \<noteq> 0
                then nova_handle_partial_block s (nova_get_write_entry s start_blk)
                       start_blk 0 offset kmem
                else s);
          kmem1 = kmem + (num_blocks - 1) * s_blocksize;
          eblk_offset = (pos + count) mod nova_inode_blk_size
      in if eblk_offset \<noteq> 0
         then nova_handle_partial_block s1 (nova_get_write_entry s1 end_blk)
                end_blk eblk_offset (s_blocksize - eblk_offset) kmem1
         else s1)"

subsection \<open>Checksum protection of written data (\<open>nova_protect_file_data\<close>)\<close>

text \<open>
  The block buffer is a function from the offset in the block to the byte. The first
  part copies the user data of the first block and the old head of the block; the
  loop stores the code of one block and loads the user data of the next; the last
  part completes the last block with its old tail and stores its code.
\<close>

definition protect_head ::
  "nova_state \<Rightarrow> nat \<Rightarrow> nat \<Rightarrow> bool \<Rightarrow> (nat \<Rightarrow> byte) \<Rightarrow> int \<times> (nat \<Rightarrow> byte)" where
  "protect_head s start_blk offset inplace blockbuf =
     (if offset \<noteq> 0 then
        (case nova_get_write_entry s start_blk of
           None \<Rightarrow> (0, blockbuf)
         | Some entry \<Rightarrow>
             (let nvmm = get_nvmm s entry start_blk;
                  blockptr = nova_get_block (nova_get_block_off nvmm);
                  mapped = nova_find_pgoff_in_vma s start_blk
              in if data_csum s > 0 \<and> \<not> mapped \<and> \<not> inplace
                    \<and> \<not> nova_verify_data_csum s nvmm 0 offset
                 then (- EIO, blockbuf)
                 else memcpy_from_pmem s blockbuf 0 blockptr offset))
      else (0, blockbuf))"

function protect_loop ::
  "nova_state \<Rightarrow> byte list \<Rightarrow> (nat \<Rightarrow> byte) \<Rightarrow> nat \<Rightarrow> nat \<Rightarrow> nat \<Rightarrow> nat \<Rightarrow> nat
     \<Rightarrow> int \<times> nova_state \<times> (nat \<Rightarrow> byte) \<times> nat \<times> nat \<times> nat" where
  "protect_loop s ubuf blockbuf blocknr pos upos count bytes =
     (if fst (copy_from_user blockbuf 0 ubuf (upos + bytes)
                (if count - bytes < s_blocksize then count - bytes else s_blocksize)) \<noteq> 0
      then (- EFAULT, nova_update_block_csum_parity s blockbuf blocknr,
            snd (copy_from_user blockbuf 0 ubuf (upos + bytes)
                   (if count - bytes < s_blocksize then count - bytes else s_blocksize)),
            blocknr + 1, pos + bytes, count - bytes)
      else if count - bytes > s_blocksize
      then protect_loop (nova_update_block_csum_parity s blockbuf blocknr) ubuf
             (snd (copy_from_user blockbuf 0 ubuf (upos + bytes)
                     (if count - bytes < s_blocksize then count - bytes else s_blocksize)))
             (blocknr + 1) (pos + bytes) (upos + bytes) (count - bytes)
             (if count - bytes < s_blocksize then count - bytes else s_blocksize)
      else (0, nova_update_block_csum_parity s blockbuf blocknr,
            snd (copy_from_user blockbuf 0 ubuf (upos + bytes)
                   (if count - bytes < s_blocksize then count - bytes else s_blocksize)),
            blocknr + 1, pos + bytes, count - bytes))"
  by pat_completeness auto
termination
  by (relation "measure (\<lambda>(s, ubuf, blockbuf, blocknr, pos, upos, count, bytes).
                   2 * count + (if bytes = 0 then 1 else 0))")
     (auto simp: s_blocksize_def)

declare protect_loop.simps [simp del]

definition protect_eblk ::
  "nova_state \<Rightarrow> nat \<Rightarrow> nat \<Rightarrow> nat \<Rightarrow> nat \<Rightarrow> bool \<Rightarrow> (nat \<Rightarrow> byte) \<Rightarrow> nat
     \<Rightarrow> int \<times> nova_state" where
  "protect_eblk s pos count end_blk num_blocks inplace blockbuf blocknr =
     (let eblk_offset = (pos + count) mod s_blocksize
      in if eblk_offset \<noteq> 0 then
           (case nova_get_write_entry s end_blk of
              Some entry \<Rightarrow>
                (let nvmm = get_nvmm s entry end_blk;
                     blockptr = nova_get_block (nova_get_block_off nvmm);
                     mapped = nova_find_pgoff_in_vma s end_blk
                 in if data_csum s > 0 \<and> \<not> mapped \<and> \<not> inplace
                       \<and> \<not> nova_verify_data_csum s nvmm eblk_offset (s_blocksize - eblk_offset)
                    then (- EIO, s)
                    else (case memcpy_from_pmem s blockbuf eblk_offset (blockptr + eblk_offset)
                                 (s_blocksize - eblk_offset) of
                            (ret, blockbuf1) \<Rightarrow>
                              if ret < 0 then (ret, s)
                              else (ret, nova_update_block_csum_parity s blockbuf1 blocknr)))
            | None \<Rightarrow>
                (0, nova_update_block_csum_parity s
                      (if num_blocks > 1
                       then pmem_write blockbuf eblk_offset (replicate (s_blocksize - eblk_offset) 0)
                       else blockbuf) blocknr))
         else (0, nova_update_block_csum_parity s blockbuf blocknr))"

definition nova_protect_file_data ::
  "nova_state \<Rightarrow> nat \<Rightarrow> nat \<Rightarrow> byte list \<Rightarrow> nat \<Rightarrow> nat \<Rightarrow> bool \<Rightarrow> int \<times> nova_state" where
  "nova_protect_file_data s pos count ubuf upos blocknr inplace =
     (let offset = pos mod s_blocksize;
          num_blocks = (offset + count - 1) div s_blocksize + 1;
          start_blk = pos div s_blocksize;
          end_blk = start_blk + num_blocks - 1
      in if kzalloc_fails s then (- ENOMEM, s)
         else
           (let bytes = (if s_blocksize - offset > count then count else s_blocksize - offset);
                (left, blockbuf1) = copy_from_user (\<lambda>_. 0) offset ubuf upos bytes
            in if left \<noteq> 0 then (- EFAULT, s)
               else
                 (case protect_head s start_blk offset inplace blockbuf1 of
                    (ret, blockbuf2) \<Rightarrow>
                      if ret < 0 then (ret, s)
                      else if num_blocks = 1
                      then protect_eblk s pos count end_blk num_blocks inplace blockbuf2 blocknr
                      else
                        (case protect_loop s ubuf blockbuf2 blocknr pos upos count bytes of
                           (lret, s1, blockbuf3, blocknr1, pos1, count1) \<Rightarrow>
                             if lret \<noteq> 0 then (lret, s1)
                             else protect_eblk s1 pos1 count1 end_blk num_blocks inplace
                                    blockbuf3 blocknr1))))"

section \<open>The copy-on-write writer (\<open>nova_cow_file_write\<close>)\<close>

text \<open>
  The local variables that the write loop carries from one run to the next. The user
  buffer pointer \<open>buf\<close> is the position \<open>w_bufpos\<close> in the list of the buffer's bytes.
\<close>

record wvars =
  w_pos :: nat
  w_count :: nat
  w_bufpos :: nat
  w_num_blocks :: nat
  w_written :: int
  w_status :: int
  w_blocknr :: nat
  w_allocated :: int
  w_begin_tail :: nat
  w_update :: nova_inode_update
  w_update_log :: bool
  w_step :: nat

text \<open>
  One run of the loop ends in \<open>goto out\<close> with a return value, in \<open>break\<close>, or at the
  end of the loop body.
\<close>

datatype step_result =
    Goto_out int nova_state wvars
  | Break_loop nova_state wvars
  | Next_iter nova_state wvars

text \<open>
  The two writers share the text of the loop body after the choice of the blocks; its
  parts are named here. \<open>run_bytes\<close> is the number of bytes of the run;
  \<open>run_copy\<close> merges the partial blocks (when \<open>merge\<close> holds) and copies the user
  data, and gives the number of bytes copied; \<open>run_protect\<close> updates the checksums
  when they are enabled; \<open>run_file_size\<close> is the file size the log entry records.
\<close>

definition run_bytes :: "int \<Rightarrow> nat \<Rightarrow> nat \<Rightarrow> nat" where
  "run_bytes allocated offset count =
     (if s_blocksize * nat allocated - offset > count then count
      else s_blocksize * nat allocated - offset)"

definition run_copy ::
  "byte list \<Rightarrow> bool \<Rightarrow> nat \<Rightarrow> nat \<Rightarrow> nova_state \<Rightarrow> wvars \<Rightarrow> nat \<times> nova_state" where
  "run_copy buf merge kmem bytes s v =
     (let offset = w_pos v mod nova_inode_blk_size;
          s2 = (if merge \<and> (offset \<noteq> 0 \<or> (offset + bytes) mod PAGE_SIZE \<noteq> 0)
                then nova_handle_head_tail_blocks s (w_pos v) bytes kmem
                else s)
      in case memcpy_to_pmem_nocache s2 (kmem + offset) buf (w_bufpos v) bytes of
           (left, s3) \<Rightarrow> (bytes - left, s3))"

definition run_protect ::
  "byte list \<Rightarrow> nat \<Rightarrow> nat \<Rightarrow> bool \<Rightarrow> nova_state \<Rightarrow> wvars \<Rightarrow> int \<times> nova_state" where
  "run_protect buf bytes blocknr inplace s v =
     (if data_csum s > 0 \<or> data_parity s > 0
      then nova_protect_file_data s (w_pos v) bytes buf (w_bufpos v) blocknr inplace
      else (0, s))"

definition run_file_size :: "nat \<Rightarrow> nova_state \<Rightarrow> wvars \<Rightarrow> nat" where
  "run_file_size copied s v =
     (if w_pos v + copied > i_size s then w_pos v + copied else i_size s)"

text \<open>The end of both loop bodies: the accounting of the bytes copied.\<close>

definition account_copied :: "wvars \<Rightarrow> nat \<Rightarrow> nat \<Rightarrow> int \<Rightarrow> wvars" where
  "account_copied v copied bytes allocated =
     (let v1 = (if copied > 0
                then v\<lparr>w_status := int copied,
                       w_written := w_written v + int copied,
                       w_pos := w_pos v + copied,
                       w_bufpos := w_bufpos v + copied,
                       w_count := w_count v - copied,
                       w_num_blocks := w_num_blocks v - nat allocated\<rparr>
                else v)
      in if copied \<noteq> bytes
         then (if w_status v1 \<ge> 0 then v1\<lparr>w_status := - EFAULT\<rparr> else v1)
         else v1)"

definition set_begin_tail :: "wvars \<Rightarrow> wvars" where
  "set_begin_tail v =
     (if w_begin_tail v = 0 then v\<lparr>w_begin_tail := curr_entry (w_update v)\<rparr> else v)"

definition cow_write_step ::
  "byte list \<Rightarrow> nat \<Rightarrow> nat \<Rightarrow> nova_state \<Rightarrow> wvars \<Rightarrow> step_result" where
  "cow_write_step buf epoch time s v =
     (let offset = w_pos v mod nova_inode_blk_size;
          start_blk = w_pos v div s_blocksize
      in case nova_new_data_blocks s (w_blocknr v) start_blk (w_num_blocks v) of
           (allocated, blocknr, s1) \<Rightarrow>
             (let v1 = v\<lparr>w_allocated := allocated, w_blocknr := blocknr\<rparr>
              in if allocated \<le> 0 then Goto_out allocated s1 v1
                 else
                   (let v2 = v1\<lparr>w_step := w_step v1 + 1\<rparr>;
                        bytes = run_bytes allocated offset (w_count v);
                        kmem = nova_get_block (nova_get_block_off blocknr)
                    in case run_copy buf True kmem bytes s1 v of
                         (copied, s3) \<Rightarrow>
                           (case run_protect buf bytes blocknr False s3 v of
                              (pret, s4) \<Rightarrow>
                                if pret \<noteq> 0 then Goto_out pret s4 v2
                                else
                                  (case nova_append_file_write_entry s4
                                          (nova_init_file_write_entry epoch start_blk
                                             (nat allocated) blocknr time
                                             (run_file_size copied s4 v))
                                          (w_update v2) of
                                     (aret, s5, update1) \<Rightarrow>
                                       (let v3 = v2\<lparr>w_update := update1\<rparr>
                                        in if aret \<noteq> 0 then Goto_out (- ENOSPC) s5 v3
                                           else
                                             (let v4 = account_copied v3 copied bytes allocated
                                              in if w_status v4 < 0 then Break_loop s5 v4
                                                 else Next_iter s5 (set_begin_tail v4))))))))"

partial_function (option) cow_write_loop ::
  "byte list \<Rightarrow> nat \<Rightarrow> nat \<Rightarrow> nova_state \<Rightarrow> wvars \<Rightarrow> step_result option" where
  [code]: "cow_write_loop buf epoch time s v =
     (if w_num_blocks v > 0 then
        (case cow_write_step buf epoch time s v of
           Goto_out r s1 v1 \<Rightarrow> Some (Goto_out r s1 v1)
         | Break_loop s1 v1 \<Rightarrow> Some (Break_loop s1 v1)
         | Next_iter s1 v1 \<Rightarrow> cow_write_loop buf epoch time s1 v1)
      else Some (Next_iter s v))"

text \<open>
  The label \<open>out\<close>: the cleanup when the return value is negative, then the unlocking.
  The result of a write is the return value, the file position and the state.
\<close>

definition write_out ::
  "bool \<Rightarrow> int \<Rightarrow> nat \<Rightarrow> nova_state \<Rightarrow> wvars \<Rightarrow> (int \<times> nat \<times> nova_state) option" where
  "write_out need_lock ret ppos s v =
     (case (if ret < 0
            then nova_cleanup_incomplete_write s (w_blocknr v) (w_allocated v)
                   (w_begin_tail v) (tail (w_update v))
            else Some (0, s)) of
        None \<Rightarrow> None
      | Some (_, s1) \<Rightarrow>
          Some (ret, ppos,
                log_event EvSbEndWrite (if need_lock then log_event EvInodeUnlock s1 else s1)))"

definition write_vars_init :: "nova_state \<Rightarrow> nat \<Rightarrow> nat \<Rightarrow> wvars" where
  "write_vars_init s pos len =
     \<lparr>w_pos = pos, w_count = len, w_bufpos = 0,
      w_num_blocks = (len + pos mod s_blocksize - 1) div s_blocksize + 1,
      w_written = 0, w_status = 0, w_blocknr = 0, w_allocated = 0, w_begin_tail = 0,
      w_update = \<lparr>tail = log_tail s, alter_tail = alter_log_tail s,
                  curr_entry = 0, alter_entry = 0\<rparr>,
      w_update_log = False, w_step = 0\<rparr>"

definition cow_write_finish ::
  "bool \<Rightarrow> nat \<Rightarrow> nat \<Rightarrow> nova_state \<Rightarrow> wvars \<Rightarrow> (int \<times> nat \<times> nova_state) option" where
  "cow_write_finish need_lock ppos total_blocks s v =
     (let s1 = s\<lparr>sih_i_blocks := sih_i_blocks s + total_blocks\<rparr>;
          s2 = nova_update_inode s1 (w_update v)
      in case nova_reassign_file_tree s2 (w_begin_tail v) of
           None \<Rightarrow> None
         | Some (ret, s3) \<Rightarrow>
             if ret \<noteq> 0 then write_out need_lock ret ppos s3 v
             else
               (let s4 = s3\<lparr>i_blocks := sih_i_blocks s3\<rparr>;
                    s5 = (if w_pos v > i_size s4
                          then s4\<lparr>i_size := w_pos v, sih_i_size := w_pos v\<rparr> else s4)
                in write_out need_lock (w_written v) (w_pos v) s5 v))"

text \<open>
  \<open>buf_ok\<close> is the answer of \<open>access_ok\<close> for the user buffer, \<open>buf\<close> the readable
  bytes of the buffer, \<open>ppos\<close> the file position of the caller.
\<close>

definition nova_cow_file_write ::
  "nova_state \<Rightarrow> bool \<Rightarrow> byte list \<Rightarrow> nat \<Rightarrow> nat \<Rightarrow> bool
     \<Rightarrow> (int \<times> nat \<times> nova_state) option" where
  "nova_cow_file_write s buf_ok buf len ppos need_lock =
     (if len = 0 then Some (0, ppos, s)
      else if mapping_mapped s then Some (- EACCES, ppos, s)
      else
        (let s0 = log_event EvSbStartWrite s;
             s1 = (if need_lock then log_event EvInodeLock s0 else s0)
         in if \<not> buf_ok then write_out need_lock (- EFAULT) ppos s1 (write_vars_init s1 ppos len)
            else
              (let pos = (if f_o_append s1 then i_size s1 else ppos);
                   v0 = write_vars_init s1 pos len
               in if remove_privs_err s1 \<noteq> 0
                  then write_out need_lock (- int (remove_privs_err s1)) ppos s1 v0
                  else
                    (let s2 = s1\<lparr>i_ctime := current_time_sec s1, i_mtime := current_time_sec s1\<rparr>
                     in case cow_write_loop buf (nova_get_epoch_id s2) (current_time_sec s2 mod 2 ^ 32) s2 v0 of
                          None \<Rightarrow> None
                        | Some (Goto_out r s3 v3) \<Rightarrow> write_out need_lock r ppos s3 v3
                        | Some (Break_loop s3 v3) \<Rightarrow>
                            cow_write_finish need_lock ppos (w_num_blocks v0) s3 v3
                        | Some (Next_iter s3 v3) \<Rightarrow>
                            cow_write_finish need_lock ppos (w_num_blocks v0) s3 v3))))"

section \<open>The in-place writer (\<open>nova_inplace_file_write\<close>)\<close>

text \<open>
  \<open>nova_check_existing_entry\<close> gives the length of the run, the entry that covers
  the first page (if any) and whether the run can be written in place. The length is
  computed in \<open>unsigned long\<close>, where the subtraction wraps at \<open>2 ^ 64\<close>. \<open>BUG()\<close>
  stops the calling thread: the call does not return, which is the value \<open>None\<close>.
\<close>

definition nova_check_existing_entry ::
  "nova_state \<Rightarrow> nat \<Rightarrow> nat \<Rightarrow> bool \<Rightarrow> nat \<Rightarrow> (nat \<times> nat option \<times> bool) option" where
  "nova_check_existing_entry s num_blocks start_blk check_next epoch =
     (case nova_get_write_entry s start_blk of
        Some entry \<Rightarrow>
          (let ent_blks = (if reassigned (log s entry) = 0
                           then nat ((int (num_pages (log s entry))
                                        - (int start_blk - int (pgoff (log s entry)))) mod 2 ^ 64)
                           else 1)
           in Some (if ent_blks > num_blocks then num_blocks else ent_blks,
                    Some entry, epoch_id (log s entry) = epoch))
      | None \<Rightarrow>
          if check_next then
            (case nova_find_next_entry s start_blk of
               Some entry \<Rightarrow>
                 (let next_pgoff = pgoff (log s entry)
                  in if next_pgoff \<le> start_blk then None
                     else Some (if next_pgoff - start_blk > num_blocks then num_blocks
                                else next_pgoff - start_blk, None, False))
             | None \<Rightarrow> Some (num_blocks, None, False))
          else Some (0, None, False))"

text \<open>
  The part of the loop body after the choice between the two kinds of run:
  \<open>hole_fill\<close> tells which one was taken, \<open>entry\<close> is the address of the existing
  entry of an in-place run (the null pointer 0 when there is none).
\<close>

definition inplace_write_run ::
  "byte list \<Rightarrow> nat \<Rightarrow> nat \<Rightarrow> bool \<Rightarrow> nat \<Rightarrow> nat \<Rightarrow> nova_state \<Rightarrow> wvars \<Rightarrow> step_result" where
  "inplace_write_run buf epoch time hole_fill entry blk_off s v =
     (let offset = w_pos v mod nova_inode_blk_size;
          start_blk = w_pos v div s_blocksize;
          allocated = w_allocated v;
          blocknr = w_blocknr v;
          v2 = v\<lparr>w_step := w_step v + 1\<rparr>;
          bytes = run_bytes allocated offset (w_count v);
          kmem = nova_get_block blk_off
      in case run_copy buf hole_fill kmem bytes s v of
           (copied, s3) \<Rightarrow>
             (case run_protect buf bytes blocknr (\<not> hole_fill) s3 v of
                (pret, s4) \<Rightarrow>
                  if pret \<noteq> 0 then Goto_out pret s4 v2
                  else
                    (case (if hole_fill
                           then nova_append_file_write_entry s4
                                  (nova_init_file_write_entry epoch start_blk
                                     (nat allocated) blocknr time (run_file_size copied s4 v))
                                  (w_update v2)
                           else (0, nova_inplace_update_write_entry s4 entry
                                      epoch (run_file_size copied s4 v), w_update v2)) of
                       (aret, s5, update1) \<Rightarrow>
                         (let v3 = v2\<lparr>w_update := update1\<rparr>
                          in if aret \<noteq> 0 then Goto_out (- ENOSPC) s5 v3
                             else
                               (let v4 = account_copied v3 copied bytes allocated
                                in if w_status v4 < 0 then Break_loop s5 v4
                                   else Next_iter s5
                                          (if hole_fill
                                           then set_begin_tail (v4\<lparr>w_update_log := True\<rparr>)
                                           else v4))))))"

definition inplace_write_step ::
  "byte list \<Rightarrow> nat \<Rightarrow> nat \<Rightarrow> nova_state \<Rightarrow> wvars \<Rightarrow> step_result option" where
  "inplace_write_step buf epoch time s v =
     (let start_blk = w_pos v div s_blocksize
      in case nova_check_existing_entry s (w_num_blocks v) start_blk True epoch of
           None \<Rightarrow> None
         | Some (ent_blks, entry, inplace) \<Rightarrow>
             (case entry of
                Some e \<Rightarrow>
                  if inplace then
                    (let blocknr = get_nvmm s e start_blk;
                         blk_off = blocknr * PAGE_SIZE;
                         s1 = (if data_csum s \<noteq> 0 \<or> data_parity s \<noteq> 0
                               then nova_set_write_entry_updating s e 1 else s)
                     in Some (inplace_write_run buf epoch time False e blk_off s1
                                (v\<lparr>w_blocknr := blocknr, w_allocated := int ent_blks\<rparr>)))
                  else
                    (case nova_new_data_blocks s (w_blocknr v) start_blk ent_blks of
                       (allocated, blocknr, s1) \<Rightarrow>
                         (let v1 = v\<lparr>w_allocated := allocated, w_blocknr := blocknr\<rparr>
                          in if allocated \<le> 0 then Some (Goto_out allocated s1 v1)
                             else Some (inplace_write_run buf epoch time True e
                                          (nova_get_block_off blocknr) s1 v1)))
              | None \<Rightarrow>
                  (case nova_new_data_blocks s (w_blocknr v) start_blk ent_blks of
                     (allocated, blocknr, s1) \<Rightarrow>
                       (let v1 = v\<lparr>w_allocated := allocated, w_blocknr := blocknr\<rparr>
                        in if allocated \<le> 0 then Some (Goto_out allocated s1 v1)
                           else Some (inplace_write_run buf epoch time True 0
                                        (nova_get_block_off blocknr) s1 v1)))))"

partial_function (option) inplace_write_loop ::
  "byte list \<Rightarrow> nat \<Rightarrow> nat \<Rightarrow> nova_state \<Rightarrow> wvars \<Rightarrow> step_result option" where
  [code]: "inplace_write_loop buf epoch time s v =
     (if w_num_blocks v > 0 then
        (case inplace_write_step buf epoch time s v of
           None \<Rightarrow> None
         | Some (Goto_out r s1 v1) \<Rightarrow> Some (Goto_out r s1 v1)
         | Some (Break_loop s1 v1) \<Rightarrow> Some (Break_loop s1 v1)
         | Some (Next_iter s1 v1) \<Rightarrow> inplace_write_loop buf epoch time s1 v1)
      else Some (Next_iter s v))"

definition inplace_write_finish ::
  "bool \<Rightarrow> nat \<Rightarrow> nat \<Rightarrow> nova_state \<Rightarrow> wvars \<Rightarrow> (int \<times> nat \<times> nova_state) option" where
  "inplace_write_finish need_mutex ppos total_blocks s v =
     (let s1 = s\<lparr>sih_i_blocks := sih_i_blocks s + total_blocks\<rparr>;
          s2 = s1\<lparr>i_blocks := sih_i_blocks s1\<rparr>
      in case (if w_update_log v
               then nova_reassign_file_tree (nova_update_inode s2 (w_update v)) (w_begin_tail v)
               else Some (0, s2)) of
           None \<Rightarrow> None
         | Some (ret, s3) \<Rightarrow>
             if ret \<noteq> 0 then write_out need_mutex ret ppos s3 v
             else
               (let s5 = (if w_pos v > i_size s3
                          then s3\<lparr>i_size := w_pos v, sih_i_size := w_pos v\<rparr> else s3)
                in write_out need_mutex (w_written v) (w_pos v) s5 v))"

definition nova_inplace_file_write ::
  "nova_state \<Rightarrow> bool \<Rightarrow> byte list \<Rightarrow> nat \<Rightarrow> nat \<Rightarrow> bool
     \<Rightarrow> (int \<times> nat \<times> nova_state) option" where
  "nova_inplace_file_write s buf_ok buf len ppos need_mutex =
     (if len = 0 then Some (0, ppos, s)
      else
        (let s0 = log_event EvSbStartWrite s;
             s1 = (if need_mutex then log_event EvInodeLock s0 else s0)
         in if \<not> buf_ok then write_out need_mutex (- EFAULT) ppos s1 (write_vars_init s1 ppos len)
            else
              (let pos = (if f_o_append s1 then i_size s1 else ppos);
                   v0 = write_vars_init s1 pos len
               in if remove_privs_err s1 \<noteq> 0
                  then write_out need_mutex (- int (remove_privs_err s1)) ppos s1 v0
                  else
                    (let s2 = s1\<lparr>i_ctime := current_time_sec s1, i_mtime := current_time_sec s1\<rparr>
                     in case inplace_write_loop buf (nova_get_epoch_id s2) (current_time_sec s2 mod 2 ^ 32) s2 v0 of
                          None \<Rightarrow> None
                        | Some (Goto_out r s3 v3) \<Rightarrow> write_out need_mutex r ppos s3 v3
                        | Some (Break_loop s3 v3) \<Rightarrow>
                            inplace_write_finish need_mutex ppos (w_num_blocks v0) s3 v3
                        | Some (Next_iter s3 v3) \<Rightarrow>
                            inplace_write_finish need_mutex ppos (w_num_blocks v0) s3 v3))))"

definition nova_dax_file_write ::
  "nova_state \<Rightarrow> bool \<Rightarrow> byte list \<Rightarrow> nat \<Rightarrow> nat \<Rightarrow> (int \<times> nat \<times> nova_state) option" where
  "nova_dax_file_write s buf_ok buf len ppos =
     (if inplace_data_updates s \<noteq> 0
      then nova_inplace_file_write s buf_ok buf len ppos True
      else nova_cow_file_write s buf_ok buf len ppos True)"

section \<open>The read path (\<open>do_dax_mapping_read\<close>)\<close>

text \<open>
  The loop variables of a read: the page index, the offset in the page, the count of
  bytes copied and the bytes written to the user buffer so far. The first \<open>wvalid\<close>
  bytes of the user buffer can be written; a copy beyond them faults.
\<close>

record rvars =
  r_index :: nat
  r_offset :: nat
  r_copied :: nat
  r_out :: "byte list"

datatype read_step_result =
    Read_return int rvars
  | Read_out int rvars
  | Read_next rvars

definition read_copy ::
  "nova_state \<Rightarrow> nat \<Rightarrow> nat \<Rightarrow> bool \<Rightarrow> nat \<Rightarrow> nat \<Rightarrow> rvars \<Rightarrow> read_step_result" where
  "read_copy s wvalid len zero nvmm nr0 r =
     (let nr1 = nr0 - r_offset r;
          nr = (if nr1 > len - r_copied r then len - r_copied r else nr1)
      in if \<not> zero \<and> data_csum s > 0 \<and> \<not> nova_find_pgoff_in_vma s (r_index r)
            \<and> \<not> nova_verify_data_csum s nvmm (r_offset r) nr
         then Read_out (- EIO) r
         else
           (let src = (if zero then replicate nr 0
                       else pmem_read (pmem s) (nova_get_block (nvmm * PAGE_SIZE) + r_offset r) nr);
                ncopy = min nr (wvalid - r_copied r);
                left = nr - ncopy;
                r1 = r\<lparr>r_out := r_out r @ take ncopy src\<rparr>
            in if left \<noteq> 0 then Read_out (- EFAULT) r1
               else
                 (let offset1 = r_offset r + (nr - left);
                      r2 = r1\<lparr>r_copied := r_copied r + (nr - left),
                              r_index := r_index r + offset1 div PAGE_SIZE,
                              r_offset := offset1 mod PAGE_SIZE\<rparr>
                  in if r_copied r2 < len then Read_next r2 else Read_out 0 r2)))"

definition read_step :: "nova_state \<Rightarrow> nat \<Rightarrow> nat \<Rightarrow> nat \<Rightarrow> rvars \<Rightarrow> read_step_result" where
  "read_step s wvalid len isize r =
     (let end_index = (isize - 1) div PAGE_SIZE
      in if r_index r \<ge> end_index
            \<and> (r_index r > end_index \<or> (isize - 1) mod PAGE_SIZE + 1 \<le> r_offset r)
         then Read_out 0 r
         else
           (case nova_get_write_entry s (r_index r) of
              None \<Rightarrow> read_copy s wvalid len True 0 PAGE_SIZE r
            | Some entry \<Rightarrow>
                if r_index r < pgoff (log s entry)
                   \<or> r_index r - pgoff (log s entry) \<ge> num_pages (log s entry)
                then Read_return (- EINVAL) r
                else read_copy s wvalid len False (get_nvmm s entry (r_index r))
                       (if reassigned (log s entry) = 0
                        then (num_pages (log s entry) - (r_index r - pgoff (log s entry))) * PAGE_SIZE
                        else PAGE_SIZE) r))"

partial_function (option) read_loop ::
  "nova_state \<Rightarrow> nat \<Rightarrow> nat \<Rightarrow> nat \<Rightarrow> rvars \<Rightarrow> read_step_result option" where
  [code]: "read_loop s wvalid len isize r =
     (case read_step s wvalid len isize r of
        Read_next r1 \<Rightarrow> read_loop s wvalid len isize r1
      | Read_out e r1 \<Rightarrow> Some (Read_out e r1)
      | Read_return e r1 \<Rightarrow> Some (Read_return e r1))"

text \<open>
  The result of a read: the return value, the new file position and the bytes written
  to the user buffer. \<open>buf_ok\<close> is the answer of \<open>access_ok\<close>. The comparison of
  \<open>len\<close> with \<open>isize - pos\<close> is unsigned, so a position past the end of the file
  leaves \<open>len\<close> as it is.
\<close>

definition read_result :: "nat \<Rightarrow> int \<Rightarrow> rvars \<Rightarrow> int \<times> nat \<times> byte list" where
  "read_result pos error r =
     ((if r_copied r \<noteq> 0 then int (r_copied r) else error), pos + r_copied r, r_out r)"

definition do_dax_mapping_read ::
  "nova_state \<Rightarrow> bool \<Rightarrow> nat \<Rightarrow> nat \<Rightarrow> nat \<Rightarrow> (int \<times> nat \<times> byte list) option" where
  "do_dax_mapping_read s buf_ok wvalid len ppos =
     (let pos = ppos;
          r0 = \<lparr>r_index = pos div PAGE_SIZE, r_offset = pos mod PAGE_SIZE,
                r_copied = 0, r_out = []\<rparr>;
          isize = i_size s
      in if \<not> buf_ok then Some (read_result pos (- EFAULT) r0)
         else if isize = 0 then Some (read_result pos 0 r0)
         else
           (let len1 = (if pos \<le> isize \<and> len > isize - pos then isize - pos else len)
            in if len1 = 0 then Some (read_result pos 0 r0)
               else
                 (case read_loop s wvalid len1 isize r0 of
                    None \<Rightarrow> None
                  | Some (Read_return e r) \<Rightarrow> Some (e, ppos, r_out r)
                  | Some (Read_out e r) \<Rightarrow> Some (read_result pos e r)
                  | Some (Read_next r) \<Rightarrow> Some (read_result pos 0 r))))"

definition nova_dax_file_read ::
  "nova_state \<Rightarrow> bool \<Rightarrow> nat \<Rightarrow> nat \<Rightarrow> nat \<Rightarrow> (int \<times> nat \<times> byte list) option" where
  "nova_dax_file_read s buf_ok wvalid len ppos = do_dax_mapping_read s buf_ok wvalid len ppos"

section \<open>Example states\<close>

text \<open>
  An empty file on a small file system: four free data blocks, an allocator that hands
  out the lowest free block, one block at a time, and an empty log page at address
  8192. The checksum of a block is a sum over its bytes.
\<close>

definition null_entry :: nova_file_write_entry where
  "null_entry = \<lparr>entry_type = OTHER_ENTRY, reassigned = 0, updating = 0, epoch_id = 0,
      pgoff = 0, num_pages = 0, invalid_pages = 0, block = 0, mtime = 0, e_size = 0\<rparr>"

definition pick_lowest :: "nat set \<Rightarrow> nat \<Rightarrow> nat \<Rightarrow> (nat \<times> nat) option" where
  "pick_lowest fr hint n = (if fr = {} then None else Some (Min fr, 1))"

definition byte_sum :: "byte list \<Rightarrow> nat" where
  "byte_sum bs = sum_list (map unat bs)"

definition empty_file :: nova_state where
  "empty_file =
     \<lparr>pmem = (\<lambda>_. 0), csum_tab = (\<lambda>_. 0), csum_fn = byte_sum, pmem_poison = {},
      log = (\<lambda>_. null_entry), next_page = (\<lambda>_. 0), tree = [],
      log_tail = 8192, alter_log_tail = 0, pi_log_tail = 8192, pi_alter_log_tail = 0,
      pi_i_size = 0, pi_i_blocks = 0, sih_i_size = 0, sih_i_blocks = 0,
      i_size = 0, i_blocks = 0, i_mtime = 0, i_ctime = 0,
      free_blocks = {100, 101, 102, 200}, alloc_pick = pick_lowest,
      vma_pages = {}, mapping_mapped = False, f_o_append = False, s_epoch_id = 1,
      inplace_data_updates = 0, data_csum = 0, data_parity = 0,
      current_time_sec = 7, remove_privs_err = 0, kzalloc_fails = False, trace = []\<rparr>"

text \<open>
  A file of two pages, each under its own write entry (blocks 100 and 101), with data
  checksums on. Block 100 holds the byte 0x41 throughout, as its checksum says; the
  bytes of block 101 were changed behind the file system, so that its checksum no longer
  matches.
\<close>

definition two_page_file :: nova_state where
  "two_page_file =
     empty_file\<lparr>pmem := (\<lambda>a. if a div 4096 = 100 then 0x41 else if a div 4096 = 101 then 0x58 else 0),
       csum_tab := (\<lambda>b. if b = 100 \<or> b = 101 then byte_sum (replicate 4096 0x41) else 0),
       log := (\<lambda>a. if a = 8192 then nova_init_file_write_entry 1 0 1 100 7 4096
                   else if a = 8256 then nova_init_file_write_entry 1 1 1 101 7 8192
                   else null_entry),
       tree := [(1, 8256), (0, 8192)],
       log_tail := 8320, pi_log_tail := 8320,
       i_size := 8192, sih_i_size := 8192, i_blocks := 2, sih_i_blocks := 2,
       free_blocks := {102, 200}, data_csum := 1\<rparr>"

text \<open>
  The number of bytes one iteration of the read loop copies from a page under the
  entry \<open>entry\<close> (the value of \<open>nr\<close> at the label \<open>memcpy\<close>, after the two cuts).
\<close>

definition chunk_len :: "nova_state \<Rightarrow> nat \<Rightarrow> nat \<Rightarrow> rvars \<Rightarrow> nat" where
  "chunk_len s len entry r =
     (let nr0 = (if reassigned (log s entry) = 0
                 then (num_pages (log s entry) - (r_index r - pgoff (log s entry))) * PAGE_SIZE
                 else PAGE_SIZE);
          nr1 = nr0 - r_offset r
      in if nr1 > len - r_copied r then len - r_copied r else nr1)"

section \<open>Notions used in the statements and proofs\<close>

text \<open>
  Two states that differ at most in persistent memory, or at most in the checksum
  table; the state and the variables a run of the loop ends with; the kinds of events.
\<close>

definition pmem_only :: "nova_state \<Rightarrow> nova_state \<Rightarrow> bool" where
  "pmem_only s s' = (\<exists>m. s' = s\<lparr>pmem := m\<rparr>)"

definition csum_only :: "nova_state \<Rightarrow> nova_state \<Rightarrow> bool" where
  "csum_only s s' = (\<exists>c. s' = s\<lparr>csum_tab := c\<rparr>)"

fun step_state :: "step_result \<Rightarrow> nova_state" where
  "step_state (Goto_out r s v) = s"
| "step_state (Break_loop s v) = s"
| "step_state (Next_iter s v) = s"

fun step_vars :: "step_result \<Rightarrow> wvars" where
  "step_vars (Goto_out r s v) = v"
| "step_vars (Break_loop s v) = v"
| "step_vars (Next_iter s v) = v"

fun is_run_event :: "event \<Rightarrow> bool" where
  "is_run_event (EvAlloc b k) = True"
| "is_run_event (EvAppend a) = True"
| "is_run_event e = False"

fun is_reassign_event :: "event \<Rightarrow> bool" where
  "is_reassign_event (EvAssign a) = True"
| "is_reassign_event (EvFree b k) = True"
| "is_reassign_event e = False"

fun is_alloc_event :: "event \<Rightarrow> bool" where
  "is_alloc_event (EvAlloc b k) = True"
| "is_alloc_event e = False"

fun is_inplace_event :: "event \<Rightarrow> bool" where
  "is_inplace_event (EvInplaceUpdate a) = True"
| "is_inplace_event e = False"

text \<open>The events that change the log or the tree: append, commit, reassignment.\<close>

fun is_log_event :: "event \<Rightarrow> bool" where
  "is_log_event (EvAppend a) = True"
| "is_log_event (EvUpdateInode t) = True"
| "is_log_event (EvReassign b) = True"
| "is_log_event (EvAssign a) = True"
| "is_log_event e = False"

text \<open>The events of a call: what the trace has gained between two states.\<close>

definition new_events :: "nova_state \<Rightarrow> nova_state \<Rightarrow> event list" where
  "new_events s s' = drop (length (trace s)) (trace s')"

text \<open>
  Two entries that differ at most in the fields an in-place update may change: the
  size, the epoch and the "updating" flag.
\<close>

definition inplace_fields_only :: "nova_file_write_entry \<Rightarrow> nova_file_write_entry \<Rightarrow> bool" where
  "inplace_fields_only e e' =
     (e' = e\<lparr>e_size := e_size e', epoch_id := epoch_id e', updating := updating e'\<rparr>)"

definition log_rel :: "nova_state \<Rightarrow> nova_state \<Rightarrow> bool" where
  "log_rel s s' = (\<forall>a. inplace_fields_only (log s a) (log s' a))"

fun is_free_event :: "event \<Rightarrow> bool" where
  "is_free_event (EvFree b k) = True"
| "is_free_event e = False"

text \<open>Two states that differ at most in the free blocks, and in a trace that has gained
  events of freeing only.\<close>

definition frees_only :: "nova_state \<Rightarrow> nova_state \<Rightarrow> bool" where
  "frees_only s s' =
     (\<exists>f t. s' = s\<lparr>free_blocks := f, trace := trace s @ t\<rparr> \<and> list_all is_free_event t)"

text \<open>
  The read loop: the length a read is cut to, the loop variables it starts with, and
  the loop variables at the start of its iteration \<open>n\<close> (none when the loop has ended
  before).
\<close>

definition read_len :: "nova_state \<Rightarrow> nat \<Rightarrow> nat \<Rightarrow> nat" where
  "read_len s len pos = (if pos \<le> i_size s \<and> len > i_size s - pos then i_size s - pos else len)"

definition read_init :: "nat \<Rightarrow> rvars" where
  "read_init pos = \<lparr>r_index = pos div PAGE_SIZE, r_offset = pos mod PAGE_SIZE,
                    r_copied = 0, r_out = []\<rparr>"

fun read_iter :: "nova_state \<Rightarrow> nat \<Rightarrow> nat \<Rightarrow> nat \<Rightarrow> nat \<Rightarrow> rvars \<Rightarrow> rvars option" where
  "read_iter s wvalid len isize 0 r = Some r"
| "read_iter s wvalid len isize (Suc n) r =
     (case read_step s wvalid len isize r of
        Read_next r1 \<Rightarrow> read_iter s wvalid len isize n r1
      | Read_out e r1 \<Rightarrow> None
      | Read_return e r1 \<Rightarrow> None)"


fun log_slots :: "nova_state \<Rightarrow> nat \<Rightarrow> nat \<Rightarrow> nat list" where
  "log_slots s t 0 = []"
| "log_slots s t (Suc n) =
     (if nova_get_append_head s t = 0 then []
      else nova_get_append_head s t # log_slots s (nova_get_append_head s t + entry_size) n)"


definition end_tail_of :: "nat \<Rightarrow> nat list \<Rightarrow> nat" where
  "end_tail_of t hs = (if hs = [] then t else last hs + entry_size)"




section \<open>Verification\<close>

subsection \<open>Constants and example states\<close>

lemmas nova_consts = PAGE_SIZE_def s_blocksize_def nova_inode_blk_size_def entry_size_def
  LOG_BLOCK_TAIL_def EIO_def ENOMEM_def EACCES_def EFAULT_def EINVAL_def ENOSPC_def

lemma pmem_read_const:
  assumes "\<And>a. src \<le> a \<Longrightarrow> a < src + n \<Longrightarrow> m a = x"
  shows "pmem_read m src n = replicate n x"
  unfolding pmem_read_def using assms
  by (intro replicate_eqI) auto

lemma byte_sum_replicate: "byte_sum (replicate n x) = n * unat x"
  by (induction n) (simp_all add: byte_sum_def)

lemma two_page_fields:
  "data_csum two_page_file = 1" "vma_pages two_page_file = {}" "i_size two_page_file = 8192"
  "tree two_page_file = [(1, 8256), (0, 8192)]"
  "log two_page_file 8192 = nova_init_file_write_entry 1 0 1 100 7 4096"
  "log two_page_file 8256 = nova_init_file_write_entry 1 1 1 101 7 8192"
  "csum_fn two_page_file = byte_sum"
  "csum_tab two_page_file 100 = byte_sum (replicate 4096 0x41)"
  "csum_tab two_page_file 101 = byte_sum (replicate 4096 0x41)"
  by (simp_all add: two_page_file_def empty_file_def)

lemma two_page_block100: "pmem_read (pmem two_page_file) 409600 4096 = replicate 4096 0x41"
proof (rule pmem_read_const)
  fix a :: nat assume "409600 \<le> a" "a < 409600 + 4096"
  then have "a div 4096 = 100" by arith
  then show "pmem two_page_file a = 0x41" by (simp add: two_page_file_def)
qed

lemma two_page_block101: "pmem_read (pmem two_page_file) 413696 4096 = replicate 4096 0x58"
proof (rule pmem_read_const)
  fix a :: nat assume "413696 \<le> a" "a < 413696 + 4096"
  then have "a div 4096 = 101" by arith
  then show "pmem two_page_file a = 0x58" by (simp add: two_page_file_def)
qed

lemmas write_eval = nova_inplace_file_write_def nova_cow_file_write_def write_vars_init_def
  log_event_def inplace_write_step_def cow_write_step_def nova_check_existing_entry_def
  nova_get_write_entry_def nova_find_next_entry_def nova_new_data_blocks_def
  inplace_write_run_def nova_get_block_off_def nova_get_block_def
  run_bytes_def run_copy_def run_protect_def run_file_size_def set_begin_tail_def
  nova_handle_head_tail_blocks_def nova_handle_partial_block_def nova_copy_partial_block_def
  memcpy_to_pmem_nocache_def nova_append_file_write_entry_def nova_get_append_head_def
  is_last_entry_def next_log_page_def nova_init_file_write_entry_def account_copied_def
  inplace_write_finish_def cow_write_finish_def write_out_def nova_get_epoch_id_def
  nova_cleanup_incomplete_write_def nova_update_inode_def nova_reassign_file_tree_def
  nova_free_data_blocks_def nova_assign_write_entry_def assign_page_def
  nova_set_write_entry_updating_def nova_inplace_update_write_entry_def get_nvmm_def
  inplace_write_loop.simps cow_write_loop.simps reassign_loop.simps cleanup_loop.simps
  Let_def atLeastLessThan_nat_numeral

lemmas read_eval = do_dax_mapping_read_def read_loop.simps read_step_def read_copy_def
  read_result_def nova_get_write_entry_def nova_find_pgoff_in_vma_def get_nvmm_def
  nova_get_block_def Let_def

lemmas two_page_eval = do_dax_mapping_read_def read_loop.simps read_step_def read_copy_def
  read_result_def nova_get_write_entry_def nova_find_pgoff_in_vma_def nova_verify_data_csum_def
  block_bytes_def get_nvmm_def nova_get_block_def nova_init_file_write_entry_def
  nova_get_block_off_def nova_consts Let_def byte_sum_replicate two_page_fields
  two_page_block100 two_page_block101


subsection \<open>What the parts of a run leave unchanged\<close>

lemma only_pmem:
  assumes "\<exists>x0. s' = s\<lparr>pmem := x0\<rparr>"
  shows "csum_tab s' = csum_tab s
     \<and> csum_fn s' = csum_fn s
     \<and> pmem_poison s' = pmem_poison s
     \<and> log s' = log s
     \<and> next_page s' = next_page s
     \<and> tree s' = tree s
     \<and> log_tail s' = log_tail s
     \<and> i_size s' = i_size s
     \<and> free_blocks s' = free_blocks s
     \<and> alloc_pick s' = alloc_pick s
     \<and> vma_pages s' = vma_pages s
     \<and> data_csum s' = data_csum s
     \<and> data_parity s' = data_parity s
     \<and> kzalloc_fails s' = kzalloc_fails s
     \<and> trace s' = trace s"
  using assms by auto

lemma only_csum_tab:
  assumes "\<exists>x0. s' = s\<lparr>csum_tab := x0\<rparr>"
  shows "pmem s' = pmem s
     \<and> csum_fn s' = csum_fn s
     \<and> pmem_poison s' = pmem_poison s
     \<and> log s' = log s
     \<and> next_page s' = next_page s
     \<and> tree s' = tree s
     \<and> log_tail s' = log_tail s
     \<and> i_size s' = i_size s
     \<and> free_blocks s' = free_blocks s
     \<and> alloc_pick s' = alloc_pick s
     \<and> vma_pages s' = vma_pages s
     \<and> data_csum s' = data_csum s
     \<and> data_parity s' = data_parity s
     \<and> kzalloc_fails s' = kzalloc_fails s
     \<and> trace s' = trace s"
  using assms by auto

lemma pmem_only_refl [simp]: "pmem_only s s"
  unfolding pmem_only_def by (rule exI [of _ "pmem s"]) simp

lemma pmem_only_upd [simp]: "pmem_only s (s\<lparr>pmem := m\<rparr>)"
  unfolding pmem_only_def by blast

lemma pmem_only_trans: "pmem_only s s1 \<Longrightarrow> pmem_only s1 s2 \<Longrightarrow> pmem_only s s2"
  unfolding pmem_only_def by auto

lemma csum_only_refl [simp]: "csum_only s s"
  unfolding csum_only_def by (rule exI [of _ "csum_tab s"]) simp

lemma csum_only_upd [simp]: "csum_only s (s\<lparr>csum_tab := c\<rparr>)"
  unfolding csum_only_def by blast

lemma csum_only_trans: "csum_only s s1 \<Longrightarrow> csum_only s1 s2 \<Longrightarrow> csum_only s s2"
  unfolding csum_only_def by auto

lemma partial_block_pmem_only: "pmem_only s (nova_handle_partial_block s e i off l k)"
  by (cases e) (simp_all add: nova_handle_partial_block_def nova_copy_partial_block_def Let_def)

lemma hht_pmem_only: "pmem_only s (nova_handle_head_tail_blocks s pos count kmem)"
  unfolding nova_handle_head_tail_blocks_def Let_def
  by (auto intro: pmem_only_trans partial_block_pmem_only)

lemmas hht_fields [simp] = only_pmem [OF hht_pmem_only [unfolded pmem_only_def]]

lemma memcpy_pmem_only: "pmem_only s (snd (memcpy_to_pmem_nocache s dst ubuf upos n))"
  by (simp add: memcpy_to_pmem_nocache_def Let_def)

lemmas memcpy_fields [simp] = only_pmem [OF memcpy_pmem_only [unfolded pmem_only_def]]

lemma csum_update_csum_only: "csum_only s (nova_update_block_csum_parity s blockbuf blocknr)"
  by (simp add: nova_update_block_csum_parity_def)

lemmas csum_update_fields [simp] = only_csum_tab [OF csum_update_csum_only [unfolded csum_only_def]]

lemma protect_eblk_csum_only:
  "csum_only s (snd (protect_eblk s pos count end_blk num_blocks inplace blockbuf blocknr))"
  by (auto simp: protect_eblk_def Let_def csum_update_csum_only split: option.splits prod.splits)

lemma protect_loop_csum_only:
  "csum_only s (fst (snd (protect_loop s ubuf blockbuf blocknr pos upos count bytes)))"
proof (induction s ubuf blockbuf blocknr pos upos count bytes rule: protect_loop.induct)
  case (1 s ubuf blockbuf blocknr pos upos count bytes)
  show ?case
  proof (cases "fst (copy_from_user blockbuf 0 ubuf (upos + bytes)
                (if count - bytes < s_blocksize then count - bytes else s_blocksize)) = 0
              \<and> count - bytes > s_blocksize")
    case True
    then have "csum_only (nova_update_block_csum_parity s blockbuf blocknr)
       (fst (snd (protect_loop (nova_update_block_csum_parity s blockbuf blocknr) ubuf
             (snd (copy_from_user blockbuf 0 ubuf (upos + bytes)
                     (if count - bytes < s_blocksize then count - bytes else s_blocksize)))
             (blocknr + 1) (pos + bytes) (upos + bytes) (count - bytes)
             (if count - bytes < s_blocksize then count - bytes else s_blocksize))))"
      using "1.IH" by blast
    then have "csum_only s (fst (snd (protect_loop (nova_update_block_csum_parity s blockbuf blocknr) ubuf
             (snd (copy_from_user blockbuf 0 ubuf (upos + bytes)
                     (if count - bytes < s_blocksize then count - bytes else s_blocksize)))
             (blocknr + 1) (pos + bytes) (upos + bytes) (count - bytes)
             (if count - bytes < s_blocksize then count - bytes else s_blocksize))))"
      by (rule csum_only_trans [OF csum_update_csum_only])
    then show ?thesis using True
      by (subst protect_loop.simps) (auto simp: csum_update_csum_only)
  next
    case False
    then show ?thesis
      by (subst protect_loop.simps) (auto simp: csum_update_csum_only)
  qed
qed

lemma protect_csum_only:
  "csum_only s (snd (nova_protect_file_data s pos count ubuf upos blocknr inplace))"
proof -
  have a: "csum_only s (snd (protect_eblk s1 p cnt eb nb ip bb bn))"
    if "csum_only s s1" for s1 p cnt eb nb ip bb bn
    using that protect_eblk_csum_only csum_only_trans by blast
  have b: "protect_loop s u b0 bn p up cnt by = (r, s1, rest) \<Longrightarrow> csum_only s s1"
    for u b0 bn p up cnt "by" r s1 rest
    using protect_loop_csum_only [of s u b0 bn p up cnt "by"] by simp
  show ?thesis
    unfolding nova_protect_file_data_def Let_def
    by (auto split: prod.splits intro!: a dest: b)
qed

lemmas protect_fields [simp] = only_csum_tab [OF protect_csum_only [unfolded csum_only_def]]


subsection \<open>Empty writes and writes to a mapped file\<close>

text \<open>
  C10: a write of length zero, under either policy, returns 0 at once: the file
  position and the whole state (the inode, the log, the allocator, and the trace, so
  no lock was taken and nothing was allocated or appended) are as before.
\<close>

theorem zero_length_write_returns_at_once:
  "nova_cow_file_write s buf_ok buf 0 ppos need_lock = Some (0, ppos, s)
   \<and> nova_inplace_file_write s buf_ok buf 0 ppos need_mutex = Some (0, ppos, s)"
  by (simp add: nova_cow_file_write_def nova_inplace_file_write_def)

text \<open>
  C8: a copy-on-write write of at least one byte to a file that is mapped
  (\<open>mapping_mapped\<close>, which holds of every file mapped for writing) is rejected with
  \<open>-EACCES\<close>; the state is the one before the call, so nothing was allocated,
  appended or changed in the inode.
\<close>

theorem cow_write_rejects_mapped_file:
  assumes "0 < len" and "mapping_mapped s"
  shows "nova_cow_file_write s buf_ok buf len ppos need_lock = Some (- EACCES, ppos, s)"
  using assms by (simp add: nova_cow_file_write_def)

theorem cow_write_rejects_mapped_file_witness:
  "(0::nat) < 5 \<and> mapping_mapped (empty_file\<lparr>mapping_mapped := True\<rparr>)
   \<and> nova_cow_file_write (empty_file\<lparr>mapping_mapped := True\<rparr>) True (replicate 5 0x42) 5 0 True
       = Some (- EACCES, 0, empty_file\<lparr>mapping_mapped := True\<rparr>)"
  using cow_write_rejects_mapped_file [of 5 "empty_file\<lparr>mapping_mapped := True\<rparr>"
                                          True "replicate 5 0x42" 0 True]
  by simp

subsection \<open>Checksum verification on the read path\<close>

lemma read_copy_fail:
  assumes "0 < data_csum s" "\<not> nova_find_pgoff_in_vma s (r_index r)"
   "\<not> nova_verify_data_csum s nvmm (r_offset r)
            (if nr0 - r_offset r > len - r_copied r then len - r_copied r else nr0 - r_offset r)"
  shows "read_copy s wvalid len False nvmm nr0 r = Read_out (- EIO) r"
  using assms by (simp add: read_copy_def Let_def)

lemma read_copy_nofail:
  assumes "\<not> (0 < data_csum s \<and> \<not> nova_find_pgoff_in_vma s (r_index r)
   \<and> \<not> nova_verify_data_csum s nvmm (r_offset r)
            (if nr0 - r_offset r > len - r_copied r then len - r_copied r else nr0 - r_offset r))"
  shows "read_copy s wvalid len zero nvmm nr0 r \<noteq> Read_out (- EIO) r'"
proof -
  have "read_copy s wvalid len zero nvmm nr0 r = Read_out (- EIO) r' \<Longrightarrow> False"
    using assms unfolding read_copy_def Let_def
    by (simp add: EIO_def EFAULT_def split: if_splits)
  then show ?thesis by blast
qed

lemma read_step_on_entry:
  assumes "nova_get_write_entry s (r_index r) = Some e"
      and "pgoff (log s e) \<le> r_index r"
      and "r_index r < pgoff (log s e) + num_pages (log s e)"
      and "r_index r < (isize - 1) div PAGE_SIZE
           \<or> (r_index r = (isize - 1) div PAGE_SIZE \<and> r_offset r \<le> (isize - 1) mod PAGE_SIZE)"
  shows "read_step s wvalid len isize r =
           read_copy s wvalid len False (get_nvmm s e (r_index r))
             (if reassigned (log s e) = 0
              then (num_pages (log s e) - (r_index r - pgoff (log s e))) * PAGE_SIZE
              else PAGE_SIZE) r"
proof -
  have a: "\<not> (r_index r \<ge> (isize - 1) div PAGE_SIZE
            \<and> (r_index r > (isize - 1) div PAGE_SIZE \<or> (isize - 1) mod PAGE_SIZE + 1 \<le> r_offset r))"
    using assms(4) by auto
  have b: "\<not> (r_index r < pgoff (log s e) \<or> r_index r - pgoff (log s e) \<ge> num_pages (log s e))"
    using assms(2,3) by auto
  show ?thesis
    unfolding read_step_def Let_def
    by (simp only: a b assms(1) if_False option.case)
qed

lemma read_loop_iter:
  "read_iter s wvalid len isize n r0 = Some r
     \<Longrightarrow> read_loop s wvalid len isize r0 = read_loop s wvalid len isize r"
proof (induction n arbitrary: r0)
  case 0
  then show ?case by simp
next
  case (Suc n)
  then obtain r1 where st: "read_step s wvalid len isize r0 = Read_next r1"
    and it: "read_iter s wvalid len isize n r1 = Some r"
    by (auto split: read_step_result.splits)
  have "read_loop s wvalid len isize r0 = read_loop s wvalid len isize r1"
    by (subst read_loop.simps) (simp add: st)
  with Suc.IH [OF it] show ?case by simp
qed

text \<open>
  C9 (as amended): with data checksums on, take an iteration of the read loop that
  starts on a page with a write entry that is not mapped for writing. The checksums of
  the blocks the iteration is about to copy are verified before any of its bytes are
  copied; when the verification fails the iteration copies nothing and the read stops:
  it returns \<open>-EIO\<close> when no byte was copied before, and otherwise the count of the bytes
  that the iterations before have copied, with those bytes only.
\<close>

theorem read_stops_at_failed_checksum:
  assumes csum: "0 < data_csum s"
      and len: "i_size s \<noteq> 0" "read_len s len ppos \<noteq> 0"
      and iter: "read_iter s wvalid (read_len s len ppos) (i_size s) n (read_init ppos) = Some r"
      and ent: "nova_get_write_entry s (r_index r) = Some e"
      and cov: "pgoff (log s e) \<le> r_index r"
               "r_index r < pgoff (log s e) + num_pages (log s e)"
      and inside: "r_index r < (i_size s - 1) div PAGE_SIZE
           \<or> (r_index r = (i_size s - 1) div PAGE_SIZE \<and> r_offset r \<le> (i_size s - 1) mod PAGE_SIZE)"
      and nomap: "\<not> nova_find_pgoff_in_vma s (r_index r)"
      and bad: "\<not> nova_verify_data_csum s (get_nvmm s e (r_index r)) (r_offset r)
                   (chunk_len s (read_len s len ppos) e r)"
  shows "do_dax_mapping_read s True wvalid len ppos
           = Some ((if r_copied r \<noteq> 0 then int (r_copied r) else - EIO),
                   ppos + r_copied r, r_out r)"
proof -
  let ?len = "read_len s len ppos"
  let ?nr0 = "if reassigned (log s e) = 0
              then (num_pages (log s e) - (r_index r - pgoff (log s e))) * PAGE_SIZE
              else PAGE_SIZE"
  have step: "read_step s wvalid ?len (i_size s) r
                = read_copy s wvalid ?len False (get_nvmm s e (r_index r)) ?nr0 r"
    by (rule read_step_on_entry [OF ent cov inside])
  have len_eq: "chunk_len s ?len e r
          = (if ?nr0 - r_offset r > ?len - r_copied r then ?len - r_copied r else ?nr0 - r_offset r)"
    by (simp add: chunk_len_def Let_def)
  have "read_step s wvalid ?len (i_size s) r = Read_out (- EIO) r"
    unfolding step
    by (rule read_copy_fail [OF csum nomap]) (use bad len_eq in simp)
  then have "read_loop s wvalid ?len (i_size s) r = Some (Read_out (- EIO) r)"
    by (subst read_loop.simps) simp
  with read_loop_iter [OF iter]
  have loop: "read_loop s wvalid ?len (i_size s) (read_init ppos) = Some (Read_out (- EIO) r)"
    by simp
  have "do_dax_mapping_read s True wvalid len ppos = Some (read_result ppos (- EIO) r)"
    using len loop
    unfolding do_dax_mapping_read_def Let_def read_len_def [symmetric] read_init_def [symmetric]
    by simp
  then show ?thesis by (simp add: read_result_def)
qed

theorem read_stops_at_failed_checksum_witness:
  "0 < data_csum two_page_file
   \<and> read_iter two_page_file 8192 (read_len two_page_file 8192 0) (i_size two_page_file) 1 (read_init 0)
       = Some \<lparr>r_index = 1, r_offset = 0, r_copied = 4096, r_out = replicate 4096 0x41\<rparr>
   \<and> nova_get_write_entry two_page_file 1 = Some 8256
   \<and> \<not> nova_find_pgoff_in_vma two_page_file 1
   \<and> \<not> nova_verify_data_csum two_page_file (get_nvmm two_page_file 8256 1) 0 4096
   \<and> do_dax_mapping_read two_page_file True 8192 8192 0 = Some (4096, 4096, replicate 4096 0x41)
   \<and> read_iter two_page_file 4096 (read_len two_page_file 4096 4096) (i_size two_page_file) 0 (read_init 4096)
       = Some \<lparr>r_index = 1, r_offset = 0, r_copied = 0, r_out = []\<rparr>
   \<and> do_dax_mapping_read two_page_file True 4096 4096 4096 = Some (- EIO, 4096, [])"
proof -
  let ?s = two_page_file
  let ?r1 = "\<lparr>r_index = 1, r_offset = 0, r_copied = 4096, r_out = replicate 4096 (0x41::byte)\<rparr>"
  let ?r0 = "\<lparr>r_index = 1, r_offset = 0, r_copied = 0, r_out = ([]::byte list)\<rparr>"
  have c: "0 < data_csum ?s" by (simp add: two_page_eval)
  have sz: "i_size ?s \<noteq> 0" "i_size ?s = 8192" by (simp_all add: two_page_eval)
  have l1: "read_len ?s 8192 0 = 8192" "read_len ?s 4096 4096 = 4096"
    by (simp_all add: read_len_def sz)
  have i1: "read_iter ?s 8192 (read_len ?s 8192 0) (i_size ?s) 1 (read_init 0) = Some ?r1"
    unfolding l1 sz by (simp add: read_init_def two_page_eval)
  have i0: "read_iter ?s 4096 (read_len ?s 4096 4096) (i_size ?s) 0 (read_init 4096) = Some ?r0"
    by (simp add: read_init_def nova_consts)
  have e: "nova_get_write_entry ?s 1 = Some 8256" by (simp add: two_page_eval)
  have cov: "pgoff (log ?s 8256) \<le> 1" "1 < pgoff (log ?s 8256) + num_pages (log ?s 8256)"
    by (simp_all add: two_page_eval)
  have ins: "(1::nat) < (i_size ?s - 1) div PAGE_SIZE
       \<or> ((1::nat) = (i_size ?s - 1) div PAGE_SIZE \<and> (0::nat) \<le> (i_size ?s - 1) mod PAGE_SIZE)"
    by (simp add: sz nova_consts)
  have nm: "\<not> nova_find_pgoff_in_vma ?s 1" by (simp add: two_page_eval)
  have ch: "chunk_len ?s 8192 8256 ?r1 = 4096" "chunk_len ?s 4096 8256 ?r0 = 4096"
    by (simp_all add: chunk_len_def two_page_eval)
  have bad: "\<not> nova_verify_data_csum ?s (get_nvmm ?s 8256 1) 0 4096"
    by (simp add: two_page_eval)
  from read_stops_at_failed_checksum [OF c sz(1) _ i1, of 8256] l1 e cov ins nm ch bad
  have a: "do_dax_mapping_read ?s True 8192 8192 0 = Some (4096, 4096, replicate 4096 0x41)"
    by simp
  from read_stops_at_failed_checksum [OF c sz(1) _ i0, of 8256] l1 e cov ins nm ch bad
  have b: "do_dax_mapping_read ?s True 4096 4096 4096 = Some (- EIO, 4096, [])"
    by simp
  from c i1 i0 e nm bad a b show ?thesis by simp
qed

text \<open>
  The claim as stated fails: page 1 of the example file is not mapped for writing and
  its checksum does not verify, and yet a read of both pages does not end with an IO
  error; it returns 4096, the bytes of page 0.
\<close>

theorem read_returns_count_not_eio_counterexample:
  "0 < data_csum two_page_file \<and> \<not> nova_find_pgoff_in_vma two_page_file 1
   \<and> nova_get_write_entry two_page_file 1 = Some 8256
   \<and> \<not> nova_verify_data_csum two_page_file (get_nvmm two_page_file 8256 1) 0 4096
   \<and> do_dax_mapping_read two_page_file True 8192 8192 0 = Some (4096, 4096, replicate 4096 0x41)"
  by (simp add: two_page_eval)

subsection \<open>The return value of a write whose user buffer faults\<close>

text \<open>
  C6 fails on the in-place writer. A write of 100 bytes into a hole of the empty file,
  from a user buffer of which only the first 50 bytes can be read, returns 50 under
  both policies. The copy-on-write writer has committed the entry it appended (the log
  tail has moved by one entry). The in-place writer has not: the log tail is the one
  before the call, the radix tree is empty, and a read of the 50 bytes returns zeros.
\<close>

theorem inplace_partial_write_returns_uncommitted_count:
  "(\<exists>s'. nova_inplace_file_write empty_file True (replicate 50 0x41) 100 0 True = Some (50, 50, s')
         \<and> log_tail s' = log_tail empty_file \<and> tree s' = []
         \<and> do_dax_mapping_read s' True 50 50 0 = Some (50, 50, replicate 50 0))
   \<and> (\<exists>s'. nova_cow_file_write empty_file True (replicate 50 0x41) 100 0 True = Some (50, 50, s')
         \<and> log_tail s' = log_tail empty_file + entry_size)"
  by (simp add: write_eval read_eval nova_consts empty_file_def pick_lowest_def)

subsection \<open>The runs of the copy-on-write loop\<close>

lemma pmem_onlyD:
  assumes "pmem_only s s'"
  shows "csum_tab s' = csum_tab s" "csum_fn s' = csum_fn s" "pmem_poison s' = pmem_poison s"
    "log s' = log s" "next_page s' = next_page s" "tree s' = tree s" "log_tail s' = log_tail s"
    "i_size s' = i_size s" "free_blocks s' = free_blocks s" "alloc_pick s' = alloc_pick s"
    "vma_pages s' = vma_pages s" "data_csum s' = data_csum s" "data_parity s' = data_parity s"
    "kzalloc_fails s' = kzalloc_fails s" "trace s' = trace s"
  using only_pmem [OF assms [unfolded pmem_only_def]] by simp_all

lemma csum_onlyD:
  assumes "csum_only s s'"
  shows "pmem s' = pmem s" "csum_fn s' = csum_fn s" "pmem_poison s' = pmem_poison s"
    "log s' = log s" "next_page s' = next_page s" "tree s' = tree s" "log_tail s' = log_tail s"
    "i_size s' = i_size s" "free_blocks s' = free_blocks s" "alloc_pick s' = alloc_pick s"
    "vma_pages s' = vma_pages s" "data_csum s' = data_csum s" "data_parity s' = data_parity s"
    "kzalloc_fails s' = kzalloc_fails s" "trace s' = trace s"
  using only_csum_tab [OF assms [unfolded csum_only_def]] by simp_all

lemma new_data_blocks_cases:
  assumes "nova_new_data_blocks s bn sb n = (a, b, s1)"
  shows "(a = - ENOSPC \<and> b = bn \<and> s1 = s)
       \<or> (\<exists>k. a = int k \<and> 0 < k \<and> k \<le> n \<and> {b..<b + k} \<subseteq> free_blocks s
              \<and> alloc_pick s (free_blocks s) sb n = Some (b, k)
              \<and> s1 = s\<lparr>free_blocks := free_blocks s - {b..<b + k},
                       trace := trace s @ [EvAlloc b k]\<rparr>)"
  using assms
  by (auto simp: nova_new_data_blocks_def log_event_def split: option.splits if_splits)

lemma append_cases:
  assumes "nova_append_file_write_entry s e u = (a, s1, u1)"
  shows "(a = - ENOSPC \<and> nova_get_append_head s (tail u) = 0 \<and> s1 = s \<and> u1 = u)
       \<or> (a = 0 \<and> nova_get_append_head s (tail u) \<noteq> 0
           \<and> s1 = s\<lparr>log := (log s)(nova_get_append_head s (tail u) := e),
                    trace := trace s @ [EvAppend (nova_get_append_head s (tail u))]\<rparr>
           \<and> u1 = u\<lparr>curr_entry := nova_get_append_head s (tail u),
                    tail := nova_get_append_head s (tail u) + entry_size\<rparr>)"
  using assms
  by (auto simp: nova_append_file_write_entry_def log_event_def Let_def split: if_splits)

lemma run_copy_pmem_only:
  assumes "run_copy buf merge kmem bytes s v = (copied, s3)"
  shows "pmem_only s s3"
proof -
  have "pmem_only s (snd (run_copy buf merge kmem bytes s v))"
    unfolding run_copy_def Let_def split_beta
    by (auto intro: pmem_only_trans [OF hht_pmem_only memcpy_pmem_only] memcpy_pmem_only)
  with assms show ?thesis by simp
qed

lemma protect_head_ret: "fst (protect_head s sb off ip bb) \<le> 0"
  by (auto simp: protect_head_def memcpy_from_pmem_def Let_def nova_consts split: option.splits)

lemma protect_eblk_ret: "fst (protect_eblk s pos count end_blk num_blocks inplace blockbuf blocknr) \<le> 0"
  by (auto simp: protect_eblk_def memcpy_from_pmem_def Let_def nova_consts split: option.splits)

lemma protect_loop_ret: "fst (protect_loop s ubuf blockbuf blocknr pos upos count bytes) \<le> 0"
proof (induction s ubuf blockbuf blocknr pos upos count bytes rule: protect_loop.induct)
  case (1 s ubuf blockbuf blocknr pos upos count bytes)
  then show ?case
    by (subst protect_loop.simps) (auto simp: nova_consts)
qed

lemma protect_ret: "fst (nova_protect_file_data s pos count ubuf upos blocknr inplace) \<le> 0"
proof -
  have a: "protect_head s sb off ip bb = (r, x) \<Longrightarrow> r \<le> 0" for sb off ip bb r x
    using protect_head_ret [of s sb off ip bb] by simp
  have b: "protect_loop s1 u b0 bn p up cnt by = (r, rest) \<Longrightarrow> r \<le> 0"
    for s1 u b0 bn p up cnt "by" r rest
    using protect_loop_ret [of s1 u b0 bn p up cnt "by"] by simp
  show ?thesis
    unfolding nova_protect_file_data_def Let_def
    by (auto split: prod.splits simp: protect_eblk_ret nova_consts dest: a b)
qed

lemma run_protect_cases:
  assumes "run_protect buf bytes blocknr inplace s v = (pret, s4)"
  shows "csum_only s s4 \<and> pret \<le> 0"
proof -
  have "csum_only s (snd (run_protect buf bytes blocknr inplace s v))"
    unfolding run_protect_def by (simp add: protect_csum_only)
  moreover have "fst (run_protect buf bytes blocknr inplace s v) \<le> 0"
    unfolding run_protect_def by (simp add: protect_ret)
  ultimately show ?thesis using assms by simp
qed

lemma cow_write_stepE [consumes 1, case_names alloc_fail protect_fail append_fail ran]:
  assumes "cow_write_step buf epoch time s v = r"
  obtains
    (alloc_fail) allocated blocknr s1 where
      "nova_new_data_blocks s (w_blocknr v) (w_pos v div s_blocksize) (w_num_blocks v)
         = (allocated, blocknr, s1)"
      "allocated \<le> 0"
      "r = Goto_out allocated s1 (v\<lparr>w_allocated := allocated, w_blocknr := blocknr\<rparr>)"
  | (protect_fail) allocated blocknr s1 copied s3 pret s4 where
      "nova_new_data_blocks s (w_blocknr v) (w_pos v div s_blocksize) (w_num_blocks v)
         = (allocated, blocknr, s1)"
      "0 < allocated"
      "run_copy buf True (nova_get_block (nova_get_block_off blocknr))
         (run_bytes allocated (w_pos v mod nova_inode_blk_size) (w_count v)) s1 v = (copied, s3)"
      "run_protect buf (run_bytes allocated (w_pos v mod nova_inode_blk_size) (w_count v))
         blocknr False s3 v = (pret, s4)"
      "pret \<noteq> 0"
      "r = Goto_out pret s4 (v\<lparr>w_allocated := allocated, w_blocknr := blocknr,
                                w_step := w_step v + 1\<rparr>)"
  | (append_fail) allocated blocknr s1 copied s3 s4 aret s5 update1 where
      "nova_new_data_blocks s (w_blocknr v) (w_pos v div s_blocksize) (w_num_blocks v)
         = (allocated, blocknr, s1)"
      "0 < allocated"
      "run_copy buf True (nova_get_block (nova_get_block_off blocknr))
         (run_bytes allocated (w_pos v mod nova_inode_blk_size) (w_count v)) s1 v = (copied, s3)"
      "run_protect buf (run_bytes allocated (w_pos v mod nova_inode_blk_size) (w_count v))
         blocknr False s3 v = (0, s4)"
      "nova_append_file_write_entry s4
         (nova_init_file_write_entry epoch (w_pos v div s_blocksize) (nat allocated) blocknr time
            (run_file_size copied s4 v)) (w_update v) = (aret, s5, update1)"
      "aret \<noteq> 0"
      "r = Goto_out (- ENOSPC) s5 (v\<lparr>w_allocated := allocated, w_blocknr := blocknr,
                                     w_step := w_step v + 1, w_update := update1\<rparr>)"
  | (ran) allocated blocknr s1 copied s3 s4 s5 update1 v4 where
      "nova_new_data_blocks s (w_blocknr v) (w_pos v div s_blocksize) (w_num_blocks v)
         = (allocated, blocknr, s1)"
      "0 < allocated"
      "run_copy buf True (nova_get_block (nova_get_block_off blocknr))
         (run_bytes allocated (w_pos v mod nova_inode_blk_size) (w_count v)) s1 v = (copied, s3)"
      "run_protect buf (run_bytes allocated (w_pos v mod nova_inode_blk_size) (w_count v))
         blocknr False s3 v = (0, s4)"
      "nova_append_file_write_entry s4
         (nova_init_file_write_entry epoch (w_pos v div s_blocksize) (nat allocated) blocknr time
            (run_file_size copied s4 v)) (w_update v) = (0, s5, update1)"
      "v4 = account_copied (v\<lparr>w_allocated := allocated, w_blocknr := blocknr,
                               w_step := w_step v + 1, w_update := update1\<rparr>)
              copied (run_bytes allocated (w_pos v mod nova_inode_blk_size) (w_count v)) allocated"
      "r = (if w_status v4 < 0 then Break_loop s5 v4 else Next_iter s5 (set_begin_tail v4))"
  using assms unfolding cow_write_step_def Let_def
  by (auto split: prod.splits if_splits)


lemma cow_step_trace:
  assumes "cow_write_step buf epoch time s v = r"
  shows "\<exists>runs. trace (step_state r) = trace s @ runs \<and> list_all is_run_event runs"
  using assms
proof (cases rule: cow_write_stepE)
  case (alloc_fail allocated blocknr s1)
  then show ?thesis using new_data_blocks_cases [OF alloc_fail(1)] by auto
next
  case (protect_fail allocated blocknr s1 copied s3 pret s4)
  then show ?thesis
    using new_data_blocks_cases [OF protect_fail(1)]
      pmem_onlyD(15) [OF run_copy_pmem_only [OF protect_fail(3)]]
      csum_onlyD(15) [OF conjunct1 [OF run_protect_cases [OF protect_fail(4)]]]
    by auto
next
  case (append_fail allocated blocknr s1 copied s3 s4 aret s5 update1)
  then show ?thesis
    using new_data_blocks_cases [OF append_fail(1)]
      pmem_onlyD(15) [OF run_copy_pmem_only [OF append_fail(3)]]
      csum_onlyD(15) [OF conjunct1 [OF run_protect_cases [OF append_fail(4)]]]
      append_cases [OF append_fail(5)]
    by auto
next
  case (ran allocated blocknr s1 copied s3 s4 s5 update1 v4)
  then show ?thesis
    using new_data_blocks_cases [OF ran(1)]
      pmem_onlyD(15) [OF run_copy_pmem_only [OF ran(3)]]
      csum_onlyD(15) [OF conjunct1 [OF run_protect_cases [OF ran(4)]]]
      append_cases [OF ran(5)]
    by auto
qed

lemma cow_step_ret:
  assumes "cow_write_step buf epoch time s v = Goto_out r s1 v1"
  shows "r \<le> 0"
  using assms
proof (cases rule: cow_write_stepE)
  case (protect_fail allocated blocknr s1 copied s3 pret s4)
  then show ?thesis using run_protect_cases [OF protect_fail(4)] by auto
qed (auto simp: nova_consts split: if_splits)


lemma cow_write_loop_rule:
  assumes run: "cow_write_loop buf epoch time s v = Some r"
      and init: "I s v"
      and step: "\<And>s v s1 v1. I s v \<Longrightarrow> 0 < w_num_blocks v
                   \<Longrightarrow> cow_write_step buf epoch time s v = Next_iter s1 v1 \<Longrightarrow> I s1 v1"
  shows "(\<exists>sf vf. r = Next_iter sf vf \<and> I sf vf \<and> w_num_blocks vf = 0)
       \<or> (\<exists>s1 v1. I s1 v1 \<and> 0 < w_num_blocks v1 \<and> cow_write_step buf epoch time s1 v1 = r
                   \<and> (\<forall>s2 v2. r \<noteq> Next_iter s2 v2))"
    (is "?Q r")
proof -
  have "buf = buf \<longrightarrow> epoch = epoch \<longrightarrow> time = time \<longrightarrow> I s v \<longrightarrow> ?Q r"
  proof (rule cow_write_loop.raw_induct
           [where P = "\<lambda>b e t s v r. b = buf \<longrightarrow> e = epoch \<longrightarrow> t = time \<longrightarrow> I s v \<longrightarrow> ?Q r",
            OF _ run])
    fix f b e t s v r
    assume IH: "\<And>b e t s v r. f b e t s v = Some r
                  \<Longrightarrow> b = buf \<longrightarrow> e = epoch \<longrightarrow> t = time \<longrightarrow> I s v \<longrightarrow> ?Q r"
       and body: "(if 0 < w_num_blocks v then
                    (case cow_write_step b e t s v of
                       Goto_out r s1 v1 \<Rightarrow> Some (Goto_out r s1 v1)
                     | Break_loop s1 v1 \<Rightarrow> Some (Break_loop s1 v1)
                     | Next_iter s1 v1 \<Rightarrow> f b e t s1 v1)
                  else Some (Next_iter s v)) = Some r"
    show "b = buf \<longrightarrow> e = epoch \<longrightarrow> t = time \<longrightarrow> I s v \<longrightarrow> ?Q r"
    proof (intro impI)
      assume eqs: "b = buf" "e = epoch" "t = time" and inv: "I s v"
      show "?Q r"
      proof (cases "0 < w_num_blocks v")
        case False
        with body inv show ?thesis by auto
      next
        case True
        show ?thesis
        proof (cases "cow_write_step buf epoch time s v")
          case (Goto_out x1 x2 x3)
          with body True inv eqs show ?thesis by auto
        next
          case (Break_loop x1 x2)
          with body True inv eqs show ?thesis by auto
        next
          case (Next_iter s1 v1)
          with body True eqs have fr: "f buf epoch time s1 v1 = Some r" by simp
          have i1: "I s1 v1" using step [OF inv True Next_iter] .
          from IH [OF fr] i1 show ?thesis by simp
        qed
      qed
    qed
  qed
  with init show ?thesis by blast
qed


subsection \<open>The commit of a copy-on-write write\<close>

lemma cow_loop_trace:
  assumes "cow_write_loop buf epoch time s v = Some r"
  shows "\<exists>runs. trace (step_state r) = trace s @ runs \<and> list_all is_run_event runs"
proof -
  define I where "I = (\<lambda>(s1::nova_state) (v1::wvars). \<exists>runs. trace s1 = trace s @ runs \<and> list_all is_run_event runs)"
  have "(\<exists>sf vf. r = Next_iter sf vf \<and> I sf vf \<and> w_num_blocks vf = 0)
       \<or> (\<exists>s1 v1. I s1 v1 \<and> 0 < w_num_blocks v1 \<and> cow_write_step buf epoch time s1 v1 = r
                   \<and> (\<forall>s2 v2. r \<noteq> Next_iter s2 v2))"
  proof (rule cow_write_loop_rule [OF assms])
    show "I s v" by (simp add: I_def)
  next
    fix s1 v1 s2 v2
    assume "I s1 v1" "cow_write_step buf epoch time s1 v1 = Next_iter s2 v2"
    then show "I s2 v2" using cow_step_trace [of buf epoch time s1 v1 "Next_iter s2 v2"]
      by (auto simp: I_def)
  qed
  then show ?thesis
  proof (elim disjE exE conjE)
    fix sf vf assume "r = Next_iter sf vf" "I sf vf"
    then show ?thesis by (simp add: I_def)
  next
    fix s1 v1 assume "I s1 v1" "cow_write_step buf epoch time s1 v1 = r"
    then show ?thesis using cow_step_trace [of buf epoch time s1 v1 r] by (auto simp: I_def)
  qed
qed

lemma cow_loop_ret:
  assumes "cow_write_loop buf epoch time s v = Some (Goto_out r s1 v1)"
  shows "r \<le> 0"
proof -
  have "(\<exists>sf vf. Goto_out r s1 v1 = Next_iter sf vf \<and> True \<and> w_num_blocks vf = 0)
       \<or> (\<exists>s2 v2. True \<and> 0 < w_num_blocks v2
              \<and> cow_write_step buf epoch time s2 v2 = Goto_out r s1 v1
              \<and> (\<forall>s3 v3. Goto_out r s1 v1 \<noteq> Next_iter s3 v3))"
    by (rule cow_write_loop_rule [OF assms]) simp_all
  then show ?thesis using cow_step_ret by blast
qed

lemma assign_page_trace:
  "\<exists>evs. trace (assign_page e f s p) = trace s @ evs \<and> list_all is_reassign_event evs"
  by (auto simp: assign_page_def nova_free_data_blocks_def log_event_def Let_def split: option.splits)

lemma assign_page_log_tail [simp]: "log_tail (assign_page e f s p) = log_tail s"
  by (auto simp: assign_page_def nova_free_data_blocks_def log_event_def Let_def split: option.splits)

lemma assign_pages_trace:
  "\<exists>evs. trace (foldl (assign_page e f) s ps) = trace s @ evs \<and> list_all is_reassign_event evs"
proof (induction ps arbitrary: s)
  case Nil
  then show ?case by simp
next
  case (Cons p ps)
  obtain e1 where e1: "trace (assign_page e f s p) = trace s @ e1" "list_all is_reassign_event e1"
    using assign_page_trace by blast
  obtain e2 where e2: "trace (foldl (assign_page e f) (assign_page e f s p) ps)
                         = trace (assign_page e f s p) @ e2" "list_all is_reassign_event e2"
    using Cons.IH by blast
  show ?case using e1 e2 by auto
qed

lemma assign_pages_log_tail [simp]: "log_tail (foldl (assign_page e f) s ps) = log_tail s"
  by (induction ps arbitrary: s) simp_all

lemma assign_entry_trace:
  "\<exists>evs. trace (nova_assign_write_entry s e f) = trace s @ evs \<and> list_all is_reassign_event evs"
proof -
  obtain e2 where "trace (nova_assign_write_entry s e f) = trace (log_event (EvAssign e) s) @ e2"
     "list_all is_reassign_event e2"
    unfolding nova_assign_write_entry_def using assign_pages_trace by blast
  then show ?thesis by (auto simp: log_event_def)
qed

lemma assign_entry_log_tail [simp]: "log_tail (nova_assign_write_entry s e f) = log_tail s"
  by (simp add: nova_assign_write_entry_def log_event_def)

lemma reassign_loop_rule:
  assumes run: "reassign_loop s c = Some (r, s')"
      and init: "I s"
      and step: "\<And>s a. I s \<Longrightarrow> I (nova_assign_write_entry s a True)"
  shows "I s' \<and> (r = 0 \<or> r = - EINVAL)"
proof -
  have "I s \<longrightarrow> I (snd (r, s')) \<and> (fst (r, s') = 0 \<or> fst (r, s') = - EINVAL)"
  proof (rule reassign_loop.raw_induct
           [where P = "\<lambda>s c y. I s \<longrightarrow> I (snd y) \<and> (fst y = 0 \<or> fst y = - EINVAL)", OF _ run])
    fix f s c y
    assume IH: "\<And>s c y. f s c = Some y \<Longrightarrow> I s \<longrightarrow> I (snd y) \<and> (fst y = 0 \<or> fst y = - EINVAL)"
       and body: "(if c \<noteq> 0 \<and> c \<noteq> log_tail s then
        (if (if is_last_entry c entry_size then next_log_page s c else c) = 0
         then Some (- EINVAL, s)
         else if entry_type (log s (if is_last_entry c entry_size
                                     then next_log_page s c else c)) \<noteq> FILE_WRITE
         then f s
                ((if is_last_entry c entry_size then next_log_page s c else c)
                 + entry_size)
         else f
                (nova_assign_write_entry s
                   (if is_last_entry c entry_size then next_log_page s c else c)
                   True)
                ((if is_last_entry c entry_size then next_log_page s c else c)
                 + entry_size))
      else Some (0, s)) = Some y"
    show "I s \<longrightarrow> I (snd y) \<and> (fst y = 0 \<or> fst y = - EINVAL)"
    proof
      assume inv: "I s"
      show "I (snd y) \<and> (fst y = 0 \<or> fst y = - EINVAL)"
        using body inv IH step [OF inv]
        by (auto split: if_splits)
    qed
  qed
  with init show ?thesis by simp
qed

lemma reassign_trace:
  assumes "nova_reassign_file_tree s bt = Some (r, s')"
  shows "\<exists>evs. trace s' = trace s @ [EvReassign bt] @ evs \<and> list_all is_reassign_event evs
               \<and> log_tail s' = log_tail s \<and> (r = 0 \<or> r = - EINVAL)"
proof -
  let ?s0 = "log_event (EvReassign bt) s"
  let ?I = "\<lambda>s1::nova_state. (\<exists>evs. trace s1 = trace ?s0 @ evs \<and> list_all is_reassign_event evs)
                   \<and> log_tail s1 = log_tail s"
  have run: "reassign_loop ?s0 bt = Some (r, s')"
    using assms by (simp add: nova_reassign_file_tree_def)
  have init: "?I ?s0" by (simp add: log_event_def)
  have step: "?I (nova_assign_write_entry s1 a True)" if "?I s1" for s1 a
    using that assign_entry_trace [of s1 a True] by auto
  have "?I s' \<and> (r = 0 \<or> r = - EINVAL)"
  proof (rule reassign_loop_rule [OF run])
    show "?I ?s0" by (rule init)
  next
    fix s1 a assume "?I s1"
    then show "?I (nova_assign_write_entry s1 a True)" by (rule step)
  qed
  then show ?thesis by (auto simp: log_event_def)
qed


lemma write_out_cases:
  assumes "write_out nl r p s v = Some (ret, p', s')"
  shows "ret = r \<and> p' = p
         \<and> (0 \<le> r \<longrightarrow> s' = log_event EvSbEndWrite (if nl then log_event EvInodeUnlock s else s))"
  using assms by (auto simp: write_out_def split: if_splits option.splits)

lemma cow_finish_trace:
  assumes "cow_write_finish nl ppos tb s v = Some (ret, ppos', s')" and "0 < ret"
  shows "\<exists>assigns. trace s' = trace s @ [EvUpdateInode (log_tail s'), EvReassign (w_begin_tail v)]
                         @ assigns @ (if nl then [EvInodeUnlock] else []) @ [EvSbEndWrite]
                   \<and> list_all is_reassign_event assigns"
proof -
  let ?s2 = "nova_update_inode (s\<lparr>sih_i_blocks := sih_i_blocks s + tb\<rparr>) (w_update v)"
  obtain r s3 where re: "nova_reassign_file_tree ?s2 (w_begin_tail v) = Some (r, s3)"
    using assms(1) by (auto simp: cow_write_finish_def Let_def split: option.splits)
  obtain evs where evs: "trace s3 = trace ?s2 @ [EvReassign (w_begin_tail v)] @ evs"
      "list_all is_reassign_event evs" "log_tail s3 = log_tail ?s2" "r = 0 \<or> r = - EINVAL"
    using reassign_trace [OF re] by blast
  have r0: "r = 0"
  proof (rule ccontr)
    assume "r \<noteq> 0"
    then have "write_out nl r ppos s3 v = Some (ret, ppos', s')"
      using assms(1) re by (simp add: cow_write_finish_def Let_def)
    from write_out_cases [OF this] evs(4) \<open>r \<noteq> 0\<close> assms(2) show False
      by (auto simp: nova_consts)
  qed
  let ?s4 = "s3\<lparr>i_blocks := sih_i_blocks s3\<rparr>"
  let ?s5 = "if w_pos v > i_size ?s4 then ?s4\<lparr>i_size := w_pos v, sih_i_size := w_pos v\<rparr> else ?s4"
  have wo: "write_out nl (w_written v) (w_pos v) ?s5 v = Some (ret, ppos', s')"
    using assms(1) re r0 by (simp add: cow_write_finish_def Let_def)
  from write_out_cases [OF wo] assms(2)
  have s': "s' = log_event EvSbEndWrite (if nl then log_event EvInodeUnlock ?s5 else ?s5)"
    by auto
  have t2: "trace ?s2 = trace s @ [EvUpdateInode (tail (w_update v))]"
     "log_tail ?s2 = tail (w_update v)"
    by (simp_all add: nova_update_inode_def log_event_def)
  show ?thesis
    using evs(1,2,3) t2 unfolding s'
    by (auto simp: log_event_def)
qed

text \<open>
  The single commit: a copy-on-write write that returns a positive count has made, in this order, the
  allocations and log appends of its runs (however many), then one call of
  \<open>nova_update_inode\<close>, which stores the tail the inode has when the call returns,
  then the reassignment pass with its assignments, and then the unlocking: the trace of
  the call holds exactly one commit, after every run and before the reassignment.
\<close>

theorem cow_write_commits_once:
  assumes "nova_cow_file_write s buf_ok buf len ppos need_lock = Some (ret, ppos', s')"
      and "0 < ret"
  shows "\<exists>runs bt assigns.
           trace s' = trace s @ [EvSbStartWrite] @ (if need_lock then [EvInodeLock] else [])
                        @ runs @ [EvUpdateInode (log_tail s'), EvReassign bt] @ assigns
                        @ (if need_lock then [EvInodeUnlock] else []) @ [EvSbEndWrite]
           \<and> list_all is_run_event runs \<and> list_all is_reassign_event assigns"
proof -
  let ?s1 = "if need_lock then log_event EvInodeLock (log_event EvSbStartWrite s)
             else log_event EvSbStartWrite s"
  let ?v0 = "write_vars_init ?s1 (if f_o_append ?s1 then i_size ?s1 else ppos) len"
  let ?s2 = "?s1\<lparr>i_ctime := current_time_sec ?s1, i_mtime := current_time_sec ?s1\<rparr>"
  have t2: "trace ?s2 = trace s @ [EvSbStartWrite] @ (if need_lock then [EvInodeLock] else [])"
    by (simp add: log_event_def)
  have len: "len \<noteq> 0" and nm: "\<not> mapping_mapped s"
    using assms by (auto simp: nova_cow_file_write_def nova_consts split: if_splits)
  have ok: "buf_ok"
  proof (rule ccontr)
    assume "\<not> buf_ok"
    then have "write_out need_lock (- EFAULT) ppos ?s1 (write_vars_init ?s1 ppos len)
                 = Some (ret, ppos', s')"
      using assms(1) len nm by (simp add: nova_cow_file_write_def Let_def)
    from write_out_cases [OF this] assms(2) show False by (simp add: nova_consts)
  qed
  have rp: "remove_privs_err ?s1 = 0"
  proof (rule ccontr)
    assume a: "remove_privs_err ?s1 \<noteq> 0"
    then have "write_out need_lock (- int (remove_privs_err ?s1)) ppos ?s1 ?v0
                 = Some (ret, ppos', s')"
      using assms(1) len nm ok by (simp add: nova_cow_file_write_def Let_def)
    from write_out_cases [OF this] assms(2) show False by simp
  qed
  obtain r where loop: "cow_write_loop buf (nova_get_epoch_id ?s2) (current_time_sec ?s2 mod 2 ^ 32) ?s2 ?v0 = Some r"
    using assms(1) len nm ok rp
    by (cases "cow_write_loop buf (nova_get_epoch_id ?s2) (current_time_sec ?s2 mod 2 ^ 32) ?s2 ?v0")
       (simp_all add: nova_cow_file_write_def Let_def)
  obtain runs where runs: "trace (step_state r) = trace ?s2 @ runs" "list_all is_run_event runs"
    using cow_loop_trace [OF loop] by blast
  have w: "nova_cow_file_write s buf_ok buf len ppos need_lock
             = (case r of Goto_out x s3 v3 \<Rightarrow> write_out need_lock x ppos s3 v3
                | Break_loop s3 v3 \<Rightarrow> cow_write_finish need_lock ppos (w_num_blocks ?v0) s3 v3
                | Next_iter s3 v3 \<Rightarrow> cow_write_finish need_lock ppos (w_num_blocks ?v0) s3 v3)"
    using len nm ok rp loop by (simp add: nova_cow_file_write_def Let_def)
  have fin: "cow_write_finish need_lock ppos (w_num_blocks ?v0) (step_state r) (step_vars r)
               = Some (ret, ppos', s')"
  proof (cases r)
    case (Goto_out x s3 v3)
    then have "write_out need_lock x ppos s3 v3 = Some (ret, ppos', s')"
      using w assms(1) by simp
    from write_out_cases [OF this] cow_loop_ret [OF loop [unfolded Goto_out]] assms(2)
    show ?thesis by simp
  next
    case (Break_loop s3 v3)
    then show ?thesis using w assms(1) by simp
  next
    case (Next_iter s3 v3)
    then show ?thesis using w assms(1) by simp
  qed
  obtain assigns where as:
    "trace s' = trace (step_state r) @ [EvUpdateInode (log_tail s'), EvReassign (w_begin_tail (step_vars r))]
                         @ assigns @ (if need_lock then [EvInodeUnlock] else []) @ [EvSbEndWrite]"
    "list_all is_reassign_event assigns"
    using cow_finish_trace [OF fin assms(2)] by blast
  show ?thesis
    apply (rule exI [of _ runs], rule exI [of _ "w_begin_tail (step_vars r)"], rule exI [of _ assigns])
    using as runs t2 by simp
qed


theorem cow_write_commits_once_witness:
  "\<exists>s'. nova_cow_file_write empty_file True (replicate 5000 0x41) 5000 0 True = Some (5000, 5000, s')
        \<and> (0::int) < 5000
        \<and> (\<exists>runs bt assigns.
              trace s' = trace empty_file @ [EvSbStartWrite] @ [EvInodeLock]
                        @ runs @ [EvUpdateInode (log_tail s'), EvReassign bt] @ assigns
                        @ [EvInodeUnlock] @ [EvSbEndWrite]
              \<and> list_all is_run_event runs \<and> list_all is_reassign_event assigns)"
proof -
  have "\<exists>s'. nova_cow_file_write empty_file True (replicate 5000 0x41) 5000 0 True
               = Some (5000, 5000, s')
             \<and> trace s' = [EvSbStartWrite, EvInodeLock, EvAlloc 100 1, EvAppend 8192,
                            EvAlloc 101 1, EvAppend 8256, EvUpdateInode 8320, EvReassign 8192,
                            EvAssign 8192, EvAssign 8256, EvInodeUnlock, EvSbEndWrite]"
    by (simp add: write_eval nova_consts empty_file_def pick_lowest_def)
  then obtain s' where w: "nova_cow_file_write empty_file True (replicate 5000 0x41) 5000 0 True
               = Some (5000, 5000, s')"
    by blast
  from cow_write_commits_once [OF w] obtain runs bt assigns where
    "trace s' = trace empty_file @ [EvSbStartWrite] @ [EvInodeLock]
                        @ runs @ [EvUpdateInode (log_tail s'), EvReassign bt] @ assigns
                        @ [EvInodeUnlock] @ [EvSbEndWrite]"
    "list_all is_run_event runs" "list_all is_reassign_event assigns"
    by auto
  then show ?thesis using w by auto
qed

text \<open>
  C5 fails on a write whose first run is cut short. A copy-on-write write of 100 bytes
  into the empty file, from a user buffer of which only the first 50 bytes can be
  read, returns 50. It has appended one entry and committed the tail once, but the
  loop is left before \<open>begin_tail\<close> is set, so the reassignment pass starts at 0 and
  walks nothing: the appended entry is in the committed log and not in the radix
  tree, and a read of the 50 bytes returns zeros. The same write from a buffer that
  can be read in full runs the pass over the appended entry.
\<close>

theorem cow_partial_first_run_is_not_reassigned:
  "(\<exists>s'. nova_cow_file_write empty_file True (replicate 50 0x41) 100 0 True = Some (50, 50, s')
         \<and> trace s' = [EvSbStartWrite, EvInodeLock, EvAlloc 100 1, EvAppend 8192,
                        EvUpdateInode 8256, EvReassign 0, EvInodeUnlock, EvSbEndWrite]
         \<and> log_tail s' = 8256 \<and> i_size s' = 50
         \<and> entry_type (log s' 8192) = FILE_WRITE \<and> pgoff (log s' 8192) = 0
         \<and> block (log s' 8192) = 100 * PAGE_SIZE
         \<and> pmem s' (100 * PAGE_SIZE) = 0x41
         \<and> tree s' = []
         \<and> do_dax_mapping_read s' True 50 50 0 = Some (50, 50, replicate 50 0))
   \<and> (\<exists>s'. nova_cow_file_write empty_file True (replicate 100 0x41) 100 0 True = Some (100, 100, s')
         \<and> trace s' = [EvSbStartWrite, EvInodeLock, EvAlloc 100 1, EvAppend 8192,
                        EvUpdateInode 8256, EvReassign 8192, EvAssign 8192,
                        EvInodeUnlock, EvSbEndWrite]
         \<and> tree s' = [(0, 8192)]
         \<and> do_dax_mapping_read s' True 100 100 0 = Some (100, 100, replicate 100 0x41))"
proof -
  have rd: "pmem_read (pmem_write m 409600 (replicate 100 65)) 409600 100 = replicate 100 65"
    for m :: "nat \<Rightarrow> byte"
    by (rule pmem_read_const) (simp add: pmem_write_def)
  show ?thesis
    by (simp add: write_eval read_eval nova_consts empty_file_def pick_lowest_def rd)
      (simp add: pmem_write_def)
qed


subsection \<open>The runs of the in-place loop\<close>

lemma inplace_write_runE [consumes 1, case_names protect_fail append_fail ran_fill ran_inplace]:
  assumes "inplace_write_run buf epoch time hole_fill entry blk_off s v = r"
  obtains
    (protect_fail) copied s3 pret s4 where
      "run_copy buf hole_fill (nova_get_block blk_off)
         (run_bytes (w_allocated v) (w_pos v mod nova_inode_blk_size) (w_count v)) s v = (copied, s3)"
      "run_protect buf (run_bytes (w_allocated v) (w_pos v mod nova_inode_blk_size) (w_count v))
         (w_blocknr v) (\<not> hole_fill) s3 v = (pret, s4)"
      "pret \<noteq> 0"
      "r = Goto_out pret s4 (v\<lparr>w_step := w_step v + 1\<rparr>)"
  | (append_fail) copied s3 s4 aret s5 update1 where
      "hole_fill"
      "run_copy buf hole_fill (nova_get_block blk_off)
         (run_bytes (w_allocated v) (w_pos v mod nova_inode_blk_size) (w_count v)) s v = (copied, s3)"
      "run_protect buf (run_bytes (w_allocated v) (w_pos v mod nova_inode_blk_size) (w_count v))
         (w_blocknr v) (\<not> hole_fill) s3 v = (0, s4)"
      "nova_append_file_write_entry s4
         (nova_init_file_write_entry epoch (w_pos v div s_blocksize) (nat (w_allocated v))
            (w_blocknr v) time (run_file_size copied s4 v)) (w_update v) = (aret, s5, update1)"
      "aret \<noteq> 0"
      "r = Goto_out (- ENOSPC) s5 (v\<lparr>w_step := w_step v + 1, w_update := update1\<rparr>)"
  | (ran_fill) copied s3 s4 s5 update1 v4 where
      "hole_fill"
      "run_copy buf hole_fill (nova_get_block blk_off)
         (run_bytes (w_allocated v) (w_pos v mod nova_inode_blk_size) (w_count v)) s v = (copied, s3)"
      "run_protect buf (run_bytes (w_allocated v) (w_pos v mod nova_inode_blk_size) (w_count v))
         (w_blocknr v) (\<not> hole_fill) s3 v = (0, s4)"
      "nova_append_file_write_entry s4
         (nova_init_file_write_entry epoch (w_pos v div s_blocksize) (nat (w_allocated v))
            (w_blocknr v) time (run_file_size copied s4 v)) (w_update v) = (0, s5, update1)"
      "v4 = account_copied (v\<lparr>w_step := w_step v + 1, w_update := update1\<rparr>) copied
              (run_bytes (w_allocated v) (w_pos v mod nova_inode_blk_size) (w_count v))
              (w_allocated v)"
      "r = (if w_status v4 < 0 then Break_loop s5 v4
            else Next_iter s5 (set_begin_tail (v4\<lparr>w_update_log := True\<rparr>)))"
  | (ran_inplace) copied s3 s4 s5 v4 where
      "\<not> hole_fill"
      "run_copy buf hole_fill (nova_get_block blk_off)
         (run_bytes (w_allocated v) (w_pos v mod nova_inode_blk_size) (w_count v)) s v = (copied, s3)"
      "run_protect buf (run_bytes (w_allocated v) (w_pos v mod nova_inode_blk_size) (w_count v))
         (w_blocknr v) (\<not> hole_fill) s3 v = (0, s4)"
      "s5 = nova_inplace_update_write_entry s4 entry epoch (run_file_size copied s4 v)"
      "v4 = account_copied (v\<lparr>w_step := w_step v + 1\<rparr>) copied
              (run_bytes (w_allocated v) (w_pos v mod nova_inode_blk_size) (w_count v))
              (w_allocated v)"
      "r = (if w_status v4 < 0 then Break_loop s5 v4 else Next_iter s5 v4)"
proof -
  let ?bytes = "run_bytes (w_allocated v) (w_pos v mod nova_inode_blk_size) (w_count v)"
  obtain copied s3 where c: "run_copy buf hole_fill (nova_get_block blk_off) ?bytes s v = (copied, s3)"
    by (cases "run_copy buf hole_fill (nova_get_block blk_off) ?bytes s v") blast
  obtain pret s4 where p: "run_protect buf ?bytes (w_blocknr v) (\<not> hole_fill) s3 v = (pret, s4)"
    by (cases "run_protect buf ?bytes (w_blocknr v) (\<not> hole_fill) s3 v") blast
  show thesis
  proof (cases "pret \<noteq> 0")
    case True
    then have "r = Goto_out pret s4 (v\<lparr>w_step := w_step v + 1\<rparr>)"
      using assms c p unfolding inplace_write_run_def Let_def by simp
    then show thesis using protect_fail [OF c p True] by blast
  next
    case False
    then have p0: "run_protect buf ?bytes (w_blocknr v) (\<not> hole_fill) s3 v = (0, s4)"
      using p by simp
    show thesis
    proof (cases hole_fill)
      case True
      obtain aret s5 update1 where a: "nova_append_file_write_entry s4
         (nova_init_file_write_entry epoch (w_pos v div s_blocksize) (nat (w_allocated v))
            (w_blocknr v) time (run_file_size copied s4 v)) (w_update v) = (aret, s5, update1)"
        using prod_cases3 by blast
      show thesis
      proof (cases "aret \<noteq> 0")
        case True
        have "r = Goto_out (- ENOSPC) s5 (v\<lparr>w_step := w_step v + 1, w_update := update1\<rparr>)"
          using assms c p0 a True \<open>hole_fill\<close> unfolding inplace_write_run_def Let_def by simp
        then show thesis using append_fail [OF \<open>hole_fill\<close> c p0 a True] by blast
      next
        case False
        then have a0: "nova_append_file_write_entry s4
         (nova_init_file_write_entry epoch (w_pos v div s_blocksize) (nat (w_allocated v))
            (w_blocknr v) time (run_file_size copied s4 v)) (w_update v) = (0, s5, update1)"
          using a by simp
        show thesis
          apply (rule ran_fill [OF \<open>hole_fill\<close> c p0 a0 refl])
          using assms c p0 a0 \<open>hole_fill\<close> unfolding inplace_write_run_def Let_def
          by (simp split: if_splits)
      qed
    next
      case False
      show thesis
        apply (rule ran_inplace [OF False c p0 refl refl])
        using assms c p0 False unfolding inplace_write_run_def Let_def
        by (simp split: if_splits)
    qed
  qed
qed



lemma inplace_write_stepE [consumes 1, case_names inplace alloc_fail fill]:
  assumes "inplace_write_step buf epoch time s v = Some r"
  obtains
    (inplace) ent_blks e where
      "nova_check_existing_entry s (w_num_blocks v) (w_pos v div s_blocksize) True epoch
         = Some (ent_blks, Some e, True)"
      "r = inplace_write_run buf epoch time False e
             (get_nvmm s e (w_pos v div s_blocksize) * PAGE_SIZE)
             (if data_csum s \<noteq> 0 \<or> data_parity s \<noteq> 0
              then nova_set_write_entry_updating s e 1 else s)
             (v\<lparr>w_blocknr := get_nvmm s e (w_pos v div s_blocksize),
                w_allocated := int ent_blks\<rparr>)"
  | (alloc_fail) ent_blks entry inplace allocated blocknr s1 where
      "nova_check_existing_entry s (w_num_blocks v) (w_pos v div s_blocksize) True epoch
         = Some (ent_blks, entry, inplace)"
      "entry = None \<or> \<not> inplace"
      "nova_new_data_blocks s (w_blocknr v) (w_pos v div s_blocksize) ent_blks
         = (allocated, blocknr, s1)"
      "allocated \<le> 0"
      "r = Goto_out allocated s1 (v\<lparr>w_allocated := allocated, w_blocknr := blocknr\<rparr>)"
  | (fill) ent_blks entry inplace allocated blocknr s1 where
      "nova_check_existing_entry s (w_num_blocks v) (w_pos v div s_blocksize) True epoch
         = Some (ent_blks, entry, inplace)"
      "entry = None \<or> \<not> inplace"
      "nova_new_data_blocks s (w_blocknr v) (w_pos v div s_blocksize) ent_blks
         = (allocated, blocknr, s1)"
      "0 < allocated"
      "r = inplace_write_run buf epoch time True (case entry of Some e \<Rightarrow> e | None \<Rightarrow> 0)
             (nova_get_block_off blocknr) s1
             (v\<lparr>w_allocated := allocated, w_blocknr := blocknr\<rparr>)"
  using assms unfolding inplace_write_step_def Let_def
  by (auto split: prod.splits if_splits option.splits)

lemma inplace_write_loop_rule:
  assumes run: "inplace_write_loop buf epoch time s v = Some r"
      and init: "I s v"
      and step: "\<And>s v s1 v1. I s v \<Longrightarrow> 0 < w_num_blocks v
                   \<Longrightarrow> inplace_write_step buf epoch time s v = Some (Next_iter s1 v1) \<Longrightarrow> I s1 v1"
  shows "(\<exists>sf vf. r = Next_iter sf vf \<and> I sf vf \<and> w_num_blocks vf = 0)
       \<or> (\<exists>s1 v1. I s1 v1 \<and> 0 < w_num_blocks v1
                   \<and> inplace_write_step buf epoch time s1 v1 = Some r
                   \<and> (\<forall>s2 v2. r \<noteq> Next_iter s2 v2))"
    (is "?Q r")
proof -
  have "buf = buf \<longrightarrow> epoch = epoch \<longrightarrow> time = time \<longrightarrow> I s v \<longrightarrow> ?Q r"
  proof (rule inplace_write_loop.raw_induct
           [where P = "\<lambda>b e t s v r. b = buf \<longrightarrow> e = epoch \<longrightarrow> t = time \<longrightarrow> I s v \<longrightarrow> ?Q r",
            OF _ run])
    fix f b e t s v r
    assume IH: "\<And>b e t s v r. f b e t s v = Some r
                  \<Longrightarrow> b = buf \<longrightarrow> e = epoch \<longrightarrow> t = time \<longrightarrow> I s v \<longrightarrow> ?Q r"
       and body: "(if w_num_blocks v > 0 then
        (case inplace_write_step b e t s v of
           None \<Rightarrow> None
         | Some (Goto_out r s1 v1) \<Rightarrow> Some (Goto_out r s1 v1)
         | Some (Break_loop s1 v1) \<Rightarrow> Some (Break_loop s1 v1)
         | Some (Next_iter s1 v1) \<Rightarrow> f b e t s1 v1)
      else Some (Next_iter s v)) = Some r"
    show "b = buf \<longrightarrow> e = epoch \<longrightarrow> t = time \<longrightarrow> I s v \<longrightarrow> ?Q r"
    proof (intro impI)
      assume eqs: "b = buf" "e = epoch" "t = time" and inv: "I s v"
      show "?Q r"
      proof (cases "0 < w_num_blocks v")
        case False
        with body inv show ?thesis by auto
      next
        case True
        show ?thesis
        proof (cases "inplace_write_step buf epoch time s v")
          case None
          with body True eqs show ?thesis by simp
        next
          case (Some x)
          show ?thesis
          proof (cases x)
            case (Goto_out x1 x2 x3)
            with body True inv eqs Some show ?thesis by auto
          next
            case (Break_loop x1 x2)
            with body True inv eqs Some show ?thesis by auto
          next
            case (Next_iter s1 v1)
            with body True eqs Some have fr: "f buf epoch time s1 v1 = Some r" by simp
            have i1: "I s1 v1" using step [OF inv True] Some Next_iter by simp
            from IH [OF fr] i1 show ?thesis by simp
          qed
        qed
      qed
    qed
  qed
  with init show ?thesis by blast
qed


lemma inplace_fields_only_iff:
  "inplace_fields_only e e' \<longleftrightarrow>
     entry_type e' = entry_type e \<and> reassigned e' = reassigned e \<and> pgoff e' = pgoff e
     \<and> num_pages e' = num_pages e \<and> invalid_pages e' = invalid_pages e
     \<and> block e' = block e \<and> mtime e' = mtime e"
  by (cases e, cases e') (auto simp: inplace_fields_only_def)

lemma inplace_fields_only_refl [simp]: "inplace_fields_only e e"
  by (simp add: inplace_fields_only_iff)

lemma inplace_fields_only_trans:
  "inplace_fields_only e e1 \<Longrightarrow> inplace_fields_only e1 e2 \<Longrightarrow> inplace_fields_only e e2"
  by (simp add: inplace_fields_only_iff)

lemma log_rel_refl [simp]: "log_rel s s"
  by (simp add: log_rel_def)

lemma log_rel_trans: "log_rel s s1 \<Longrightarrow> log_rel s1 s2 \<Longrightarrow> log_rel s s2"
  unfolding log_rel_def using inplace_fields_only_trans by blast

lemma log_rel_same: "log s' = log s \<Longrightarrow> log_rel s s'"
  by (simp add: log_rel_def)


lemma account_copied_fields [simp]:
  "w_update_log (account_copied v c b a) = w_update_log v"
  "w_begin_tail (account_copied v c b a) = w_begin_tail v"
  "w_update (account_copied v c b a) = w_update v"
  "w_blocknr (account_copied v c b a) = w_blocknr v"
  "w_allocated (account_copied v c b a) = w_allocated v"
  by (simp_all add: account_copied_def Let_def)

lemma inplace_update_log_rel:
  "log_rel s (nova_inplace_update_write_entry s e ep sz)"
  by (simp add: log_rel_def nova_inplace_update_write_entry_def log_event_def inplace_fields_only_iff)

lemma set_updating_log_rel:
  "log_rel s (nova_set_write_entry_updating s e x)"
  by (simp add: log_rel_def nova_set_write_entry_updating_def inplace_fields_only_iff)

lemma inplace_run_effect:
  assumes "inplace_write_run buf epoch time hf entry blk_off s v = r"
  shows "\<exists>evs. trace (step_state r) = trace s @ evs
           \<and> (\<not> hf \<longrightarrow> list_all is_inplace_event evs
                 \<and> log_tail (step_state r) = log_tail s \<and> tree (step_state r) = tree s
                 \<and> w_update_log (step_vars r) = w_update_log v
                 \<and> w_begin_tail (step_vars r) = w_begin_tail v
                 \<and> log_rel s (step_state r))"
  using assms
proof (cases rule: inplace_write_runE)
  case (protect_fail copied s3 pret s4)
  note a = pmem_onlyD [OF run_copy_pmem_only [OF protect_fail(1)]]
  note b = csum_onlyD [OF conjunct1 [OF run_protect_cases [OF protect_fail(2)]]]
  show ?thesis
    unfolding protect_fail(4)
    by (rule exI [of _ "[]"]) (simp add: a b log_rel_same)
next
  case (append_fail copied s3 s4 aret s5 update1)
  note a = pmem_onlyD [OF run_copy_pmem_only [OF append_fail(2)]]
  note b = csum_onlyD [OF conjunct1 [OF run_protect_cases [OF append_fail(3)]]]
  show ?thesis
    unfolding append_fail(6) using append_cases [OF append_fail(4)] append_fail(1)
    by (auto simp: a b)
next
  case (ran_fill copied s3 s4 s5 update1 v4)
  note a = pmem_onlyD [OF run_copy_pmem_only [OF ran_fill(2)]]
  note b = csum_onlyD [OF conjunct1 [OF run_protect_cases [OF ran_fill(3)]]]
  show ?thesis
    unfolding ran_fill(6) using append_cases [OF ran_fill(4)] ran_fill(1)
    by (auto simp: a b)
next
  case (ran_inplace copied s3 s4 s5 v4)
  note a = pmem_onlyD [OF run_copy_pmem_only [OF ran_inplace(2)]]
  note b = csum_onlyD [OF conjunct1 [OF run_protect_cases [OF ran_inplace(3)]]]
  have lr: "log_rel s s5"
    unfolding ran_inplace(4)
    by (rule log_rel_trans [OF log_rel_same inplace_update_log_rel]) (simp add: a b)
  have tr: "trace s5 = trace s @ [EvInplaceUpdate entry]" "log_tail s5 = log_tail s" "tree s5 = tree s"
    unfolding ran_inplace(4)
    by (simp_all add: nova_inplace_update_write_entry_def log_event_def a b)
  show ?thesis
    unfolding ran_inplace(6) using lr tr ran_inplace(5)
    by (auto intro!: exI [of _ "[EvInplaceUpdate entry]"])
qed

lemma inplace_step_effect:
  assumes "inplace_write_step buf epoch time s v = Some r"
  shows "\<exists>evs. trace (step_state r) = trace s @ evs
           \<and> (list_all (\<lambda>e. \<not> is_alloc_event e) evs \<longrightarrow> list_all is_inplace_event evs
                 \<and> log_tail (step_state r) = log_tail s \<and> tree (step_state r) = tree s
                 \<and> w_update_log (step_vars r) = w_update_log v
                 \<and> w_begin_tail (step_vars r) = w_begin_tail v
                 \<and> log_rel s (step_state r))"
  using assms
proof (cases rule: inplace_write_stepE)
  case (inplace ent_blks e)
  let ?s1 = "if data_csum s \<noteq> 0 \<or> data_parity s \<noteq> 0
              then nova_set_write_entry_updating s e 1 else s"
  have s1: "trace ?s1 = trace s" "log_tail ?s1 = log_tail s" "tree ?s1 = tree s" "log_rel s ?s1"
    using set_updating_log_rel [of s e 1]
    by (auto simp: nova_set_write_entry_updating_def)
  from inplace_run_effect [OF inplace(2) [symmetric]] s1
  show ?thesis by (auto intro: log_rel_trans)
next
  case (alloc_fail ent_blks entry inplace allocated blocknr s1)
  then show ?thesis using new_data_blocks_cases [OF alloc_fail(3)]
    by (auto intro!: exI [of _ "[]"] simp: nova_consts)
next
  case (fill ent_blks entry inplace allocated blocknr s1)
  from new_data_blocks_cases [OF fill(3)] fill(4) obtain k where
    "trace s1 = trace s @ [EvAlloc blocknr k]" by (auto simp: nova_consts)
  with inplace_run_effect [OF fill(5) [symmetric]]
  show ?thesis by auto
qed


subsection \<open>The cleanup and the way out of a write\<close>

lemma frees_only_refl [simp]: "frees_only s s"
  unfolding frees_only_def
  by (rule exI [of _ "free_blocks s"], rule exI [of _ "[]"]) simp

lemma frees_only_free: "frees_only s (nova_free_data_blocks s b n)"
  unfolding frees_only_def nova_free_data_blocks_def log_event_def
  by (rule exI [of _ "free_blocks s \<union> {b..<b + n}"], rule exI [of _ "[EvFree b n]"]) simp

lemma frees_only_trans:
  assumes "frees_only s s1" and "frees_only s1 s2"
  shows "frees_only s s2"
proof -
  obtain f t where a: "s1 = s\<lparr>free_blocks := f, trace := trace s @ t\<rparr>" "list_all is_free_event t"
    using assms(1) unfolding frees_only_def by blast
  obtain g u where b: "s2 = s1\<lparr>free_blocks := g, trace := trace s1 @ u\<rparr>" "list_all is_free_event u"
    using assms(2) unfolding frees_only_def by blast
  have "s2 = s\<lparr>free_blocks := g, trace := trace s @ (t @ u)\<rparr>"
    unfolding b(1) a(1) by simp
  moreover have "list_all is_free_event (t @ u)" using a(2) b(2) by simp
  ultimately show ?thesis unfolding frees_only_def by blast
qed

lemma frees_onlyD:
  assumes "frees_only s s'"
  shows "pmem s' = pmem s" "csum_tab s' = csum_tab s" "log s' = log s" "next_page s' = next_page s"
    "tree s' = tree s" "log_tail s' = log_tail s" "i_size s' = i_size s"
    "\<exists>t. trace s' = trace s @ t \<and> list_all is_free_event t"
  using assms unfolding frees_only_def by auto

lemma cleanup_loop_rule:
  assumes run: "cleanup_loop s c e = Some (r, s')"
      and init: "I s"
      and step: "\<And>s b n. I s \<Longrightarrow> I (nova_free_data_blocks s b n)"
  shows "I s'"
proof -
  have "I s \<longrightarrow> I (snd (r, s'))"
  proof (rule cleanup_loop.raw_induct [where P = "\<lambda>s c e y. I s \<longrightarrow> I (snd y)", OF _ run])
    fix f s c e y
    assume IH: "\<And>s c e y. f s c e = Some y \<Longrightarrow> I s \<longrightarrow> I (snd y)"
       and body: "(if c \<noteq> e then
        (if (if is_last_entry c entry_size then next_log_page s c else c) = 0
         then Some (- EINVAL, s)
         else if entry_type (log s (if is_last_entry c entry_size
                                     then next_log_page s c else c)) \<noteq> FILE_WRITE
         then f s
                ((if is_last_entry c entry_size then next_log_page s c else c)
                 + entry_size) e
         else f
                (nova_free_data_blocks s
                   (block (log s (if is_last_entry c entry_size
                                  then next_log_page s c else c)) div PAGE_SIZE)
                   (num_pages (log s (if is_last_entry c entry_size
                                      then next_log_page s c else c))))
                ((if is_last_entry c entry_size then next_log_page s c else c)
                 + entry_size) e)
      else Some (0, s)) = Some y"
    show "I s \<longrightarrow> I (snd y)"
    proof
      assume inv: "I s"
      show "I (snd y)"
        using body inv IH step [OF inv]
        by (auto split: if_splits)
    qed
  qed
  with init show ?thesis by simp
qed

lemma cleanup_frees_only:
  assumes "nova_cleanup_incomplete_write s bn al bt et = Some (r, s')"
  shows "frees_only s s'"
proof -
  let ?s1 = "if bn > 0 \<and> al > 0 then nova_free_data_blocks s bn (nat al) else s"
  have s1: "frees_only s ?s1" by (simp add: frees_only_free)
  show ?thesis
  proof (cases "bt = 0 \<or> et = 0")
    case True
    then have "s' = ?s1" using assms by (auto simp: nova_cleanup_incomplete_write_def Let_def)
    then show ?thesis using s1 by simp
  next
    case False
    then have run: "cleanup_loop ?s1 bt et = Some (r, s')"
      using assms by (auto simp: nova_cleanup_incomplete_write_def Let_def)
    have "frees_only s s'"
    proof (rule cleanup_loop_rule [OF run, where I = "frees_only s"])
      show "frees_only s ?s1" by (rule s1)
    next
      fix s2 b n assume "frees_only s s2"
      then show "frees_only s (nova_free_data_blocks s2 b n)"
        using frees_only_free frees_only_trans by blast
    qed
    then show ?thesis .
  qed
qed

lemma write_out_effect:
  assumes "write_out nl r p s v = Some (ret, p', s')"
  shows "\<exists>s1. frees_only s s1 \<and> (0 \<le> r \<longrightarrow> s1 = s)
              \<and> s' = log_event EvSbEndWrite (if nl then log_event EvInodeUnlock s1 else s1)
              \<and> ret = r \<and> p' = p"
proof (cases "r < 0")
  case True
  then obtain x s1 where c: "nova_cleanup_incomplete_write s (w_blocknr v) (w_allocated v)
                   (w_begin_tail v) (tail (w_update v)) = Some (x, s1)"
    using assms by (auto simp: write_out_def split: option.splits)
  then have "s' = log_event EvSbEndWrite (if nl then log_event EvInodeUnlock s1 else s1)"
     "ret = r" "p' = p"
    using assms True by (auto simp: write_out_def)
  then show ?thesis using cleanup_frees_only [OF c] True by auto
next
  case False
  then show ?thesis using assms by (auto simp: write_out_def)
qed


subsection \<open>In-place writes and the log\<close>

lemma inplace_loop_effect:
  assumes "inplace_write_loop buf epoch time s v = Some r"
  shows "\<exists>evs. trace (step_state r) = trace s @ evs
           \<and> (list_all (\<lambda>e. \<not> is_alloc_event e) evs \<longrightarrow> list_all is_inplace_event evs
                 \<and> log_tail (step_state r) = log_tail s \<and> tree (step_state r) = tree s
                 \<and> w_update_log (step_vars r) = w_update_log v
                 \<and> w_begin_tail (step_vars r) = w_begin_tail v
                 \<and> log_rel s (step_state r))"
proof -
  define J where "J = (\<lambda>(s1::nova_state) (v1::wvars). \<exists>evs. trace s1 = trace s @ evs
           \<and> (list_all (\<lambda>e. \<not> is_alloc_event e) evs \<longrightarrow> list_all is_inplace_event evs
                 \<and> log_tail s1 = log_tail s \<and> tree s1 = tree s
                 \<and> w_update_log v1 = w_update_log v
                 \<and> w_begin_tail v1 = w_begin_tail v
                 \<and> log_rel s s1))"
  have comb: "J (step_state r1) (step_vars r1)"
    if ja: "J s1 v1" and jb: "inplace_write_step buf epoch time s1 v1 = Some r1" for s1 v1 r1
  proof -
    obtain e1 where e1: "trace s1 = trace s @ e1"
      "list_all (\<lambda>e. \<not> is_alloc_event e) e1 \<longrightarrow> list_all is_inplace_event e1
                 \<and> log_tail s1 = log_tail s \<and> tree s1 = tree s
                 \<and> w_update_log v1 = w_update_log v
                 \<and> w_begin_tail v1 = w_begin_tail v
                 \<and> log_rel s s1"
      using ja unfolding J_def by blast
    obtain e2 where e2: "trace (step_state r1) = trace s1 @ e2"
      "list_all (\<lambda>e. \<not> is_alloc_event e) e2 \<longrightarrow> list_all is_inplace_event e2
                 \<and> log_tail (step_state r1) = log_tail s1 \<and> tree (step_state r1) = tree s1
                 \<and> w_update_log (step_vars r1) = w_update_log v1
                 \<and> w_begin_tail (step_vars r1) = w_begin_tail v1
                 \<and> log_rel s1 (step_state r1)"
      using inplace_step_effect [OF jb] by blast
    show ?thesis
      unfolding J_def
      apply (rule exI [of _ "e1 @ e2"])
      using e1 e2 by (auto intro: log_rel_trans)
  qed
  have "(\<exists>sf vf. r = Next_iter sf vf \<and> J sf vf \<and> w_num_blocks vf = 0)
       \<or> (\<exists>s1 v1. J s1 v1 \<and> 0 < w_num_blocks v1
                   \<and> inplace_write_step buf epoch time s1 v1 = Some r
                   \<and> (\<forall>s2 v2. r \<noteq> Next_iter s2 v2))"
  proof (rule inplace_write_loop_rule [OF assms])
    show "J s v" unfolding J_def by (rule exI [of _ "[]"]) simp
  next
    fix s1 v1 s2 v2
    assume "J s1 v1" "inplace_write_step buf epoch time s1 v1 = Some (Next_iter s2 v2)"
    from comb [OF this] show "J s2 v2" by simp
  qed
  then have "J (step_state r) (step_vars r)"
    using comb by auto
  then show ?thesis unfolding J_def .
qed


lemma free_not_log_event: "list_all is_free_event t \<Longrightarrow> list_all (\<lambda>e. \<not> is_log_event e) t"
proof (induction t)
  case Nil
  then show ?case by simp
next
  case (Cons e t)
  then show ?case by (cases e) simp_all
qed

lemma inplace_not_log_event:
  "list_all is_inplace_event t \<Longrightarrow> list_all (\<lambda>e. \<not> is_log_event e) t"
proof (induction t)
  case Nil
  then show ?case by simp
next
  case (Cons e t)
  then show ?case by (cases e) simp_all
qed

lemma write_out_quiet:
  assumes "write_out nl r p s v = Some (ret, p', s')"
  shows "\<exists>post. trace s' = trace s @ post \<and> list_all (\<lambda>e. \<not> is_log_event e) post
               \<and> log_tail s' = log_tail s \<and> tree s' = tree s \<and> log s' = log s"
proof -
  obtain s1 where s1: "frees_only s s1"
     "s' = log_event EvSbEndWrite (if nl then log_event EvInodeUnlock s1 else s1)"
    using write_out_effect [OF assms] by blast
  obtain t where t: "trace s1 = trace s @ t" "list_all is_free_event t"
    using frees_onlyD(8) [OF s1(1)] by blast
  show ?thesis
    apply (rule exI [of _ "t @ (if nl then [EvInodeUnlock] else []) @ [EvSbEndWrite]"])
    using t free_not_log_event [OF t(2)] frees_onlyD(3,5,6) [OF s1(1)]
    unfolding s1(2) by (simp add: log_event_def)
qed

lemma inplace_finish_effect:
  assumes "inplace_write_finish nm ppos tb s v = Some (ret, p', s')"
  shows "\<exists>post. trace s' = trace s @ post
           \<and> (\<not> w_update_log v \<longrightarrow> list_all (\<lambda>e. \<not> is_log_event e) post
                 \<and> log_tail s' = log_tail s \<and> tree s' = tree s \<and> log s' = log s)"
proof (cases "w_update_log v")
  case True
  let ?s2 = "s\<lparr>sih_i_blocks := sih_i_blocks s + tb,
                i_blocks := sih_i_blocks s + tb\<rparr>"
  obtain r s3 where re: "nova_reassign_file_tree (nova_update_inode ?s2 (w_update v)) (w_begin_tail v)
                           = Some (r, s3)"
    using assms True by (auto simp: inplace_write_finish_def Let_def split: option.splits)
  obtain evs where evs: "trace s3 = trace (nova_update_inode ?s2 (w_update v))
                                     @ [EvReassign (w_begin_tail v)] @ evs"
    using reassign_trace [OF re] by blast
  obtain x y z where wo: "write_out nm x y z v = Some (ret, p', s')"
      and z: "trace z = trace s3"
    using assms True re
    by (auto simp: inplace_write_finish_def Let_def split: if_splits)
  obtain post where "trace s' = trace z @ post" using write_out_quiet [OF wo] by blast
  then show ?thesis using True z evs
    by (simp add: nova_update_inode_def log_event_def)
next
  case False
  let ?s2 = "s\<lparr>sih_i_blocks := sih_i_blocks s + tb,
                i_blocks := sih_i_blocks s + tb\<rparr>"
  obtain x y z where wo: "write_out nm x y z v = Some (ret, p', s')"
      and z: "trace z = trace s" "log_tail z = log_tail s" "tree z = tree s" "log z = log s"
    using assms False
    by (auto simp: inplace_write_finish_def Let_def split: if_splits)
  from write_out_quiet [OF wo] show ?thesis using False z by auto
qed


lemma new_events_append: "trace s' = trace s @ t \<Longrightarrow> new_events s s' = t"
  by (simp add: new_events_def)

text \<open>
  C7: an in-place-policy write none of whose runs allocated blocks (no hole-fill) has
  appended no log entry, has not called \<open>nova_update_inode\<close> and has not run the
  reassignment pass; the log tail and the radix tree are as before, and every log entry
  differs from what it was at most in its size, epoch and "updating" fields. So the
  tail moves and the reassignment runs only in a call with an allocation.
\<close>

theorem inplace_only_write_leaves_log:
  assumes "nova_inplace_file_write s buf_ok buf len ppos need_mutex = Some (ret, ppos', s')"
      and "list_all (\<lambda>e. \<not> is_alloc_event e) (new_events s s')"
  shows "log_tail s' = log_tail s \<and> tree s' = tree s
         \<and> list_all (\<lambda>e. \<not> is_log_event e) (new_events s s')
         \<and> log_rel s s'"
proof (cases "len = 0")
  case True
  then have "s' = s" using assms(1) by (simp add: nova_inplace_file_write_def)
  then show ?thesis by (simp add: new_events_def)
next
  case False
  let ?s1 = "if need_mutex then log_event EvInodeLock (log_event EvSbStartWrite s)
             else log_event EvSbStartWrite s"
  let ?pre = "[EvSbStartWrite] @ (if need_mutex then [EvInodeLock] else [])"
  let ?v0 = "write_vars_init ?s1 (if f_o_append ?s1 then i_size ?s1 else ppos) len"
  let ?s2 = "?s1\<lparr>i_ctime := current_time_sec ?s1, i_mtime := current_time_sec ?s1\<rparr>"
  have s1: "trace ?s1 = trace s @ ?pre" "log_tail ?s1 = log_tail s" "tree ?s1 = tree s"
      "log ?s1 = log s"
    by (simp_all add: log_event_def)
  have s2: "trace ?s2 = trace s @ ?pre" "log_tail ?s2 = log_tail s" "tree ?s2 = tree s"
      "log ?s2 = log s"
    by (simp_all add: log_event_def)
  have pre: "list_all (\<lambda>e. \<not> is_log_event e) ?pre" by simp
  have early: ?thesis if wo: "write_out need_mutex x ppos ?s1 v1 = Some (ret, ppos', s')" for x v1
  proof -
    obtain post where post: "trace s' = trace ?s1 @ post" "list_all (\<lambda>e. \<not> is_log_event e) post"
        "log_tail s' = log_tail ?s1" "tree s' = tree ?s1" "log s' = log ?s1"
      using write_out_quiet [OF wo] by blast
    have "new_events s s' = ?pre @ post"
      by (rule new_events_append) (simp add: post(1) s1(1))
    then show ?thesis using post s1 pre by (simp add: log_rel_same)
  qed
  show ?thesis
  proof (cases "buf_ok \<and> remove_privs_err ?s1 = 0")
    case False
    then show ?thesis using assms(1) \<open>len \<noteq> 0\<close> early
      by (auto simp: nova_inplace_file_write_def Let_def split: if_splits)
  next
    case True
    obtain r where loop: "inplace_write_loop buf (nova_get_epoch_id ?s2) (current_time_sec ?s2 mod 2 ^ 32) ?s2 ?v0
                            = Some r"
      using assms(1) \<open>len \<noteq> 0\<close> True
      by (cases "inplace_write_loop buf (nova_get_epoch_id ?s2) (current_time_sec ?s2 mod 2 ^ 32) ?s2 ?v0")
         (simp_all add: nova_inplace_file_write_def Let_def)
    have w: "nova_inplace_file_write s buf_ok buf len ppos need_mutex
             = (case r of Goto_out x s3 v3 \<Rightarrow> write_out need_mutex x ppos s3 v3
                | Break_loop s3 v3 \<Rightarrow> inplace_write_finish need_mutex ppos (w_num_blocks ?v0) s3 v3
                | Next_iter s3 v3 \<Rightarrow> inplace_write_finish need_mutex ppos (w_num_blocks ?v0) s3 v3)"
      using \<open>len \<noteq> 0\<close> True loop by (simp add: nova_inplace_file_write_def Let_def)
    obtain evs where evs: "trace (step_state r) = trace ?s2 @ evs"
       "list_all (\<lambda>e. \<not> is_alloc_event e) evs \<longrightarrow> list_all is_inplace_event evs
                 \<and> log_tail (step_state r) = log_tail ?s2 \<and> tree (step_state r) = tree ?s2
                 \<and> w_update_log (step_vars r) = w_update_log ?v0
                 \<and> w_begin_tail (step_vars r) = w_begin_tail ?v0
                 \<and> log_rel ?s2 (step_state r)"
      using inplace_loop_effect [OF loop] by blast
    have v0: "\<not> w_update_log ?v0" by (simp add: write_vars_init_def)
    have fin: "\<exists>post. trace s' = trace (step_state r) @ post
           \<and> (\<not> w_update_log (step_vars r) \<longrightarrow> list_all (\<lambda>e. \<not> is_log_event e) post
                 \<and> log_tail s' = log_tail (step_state r) \<and> tree s' = tree (step_state r)
                 \<and> log s' = log (step_state r))"
    proof (cases r)
      case (Goto_out x s3 v3)
      then have "write_out need_mutex x ppos s3 v3 = Some (ret, ppos', s')"
        using w assms(1) by simp
      from write_out_quiet [OF this] show ?thesis using Goto_out by auto
    next
      case (Break_loop s3 v3)
      then have "inplace_write_finish need_mutex ppos (w_num_blocks ?v0) s3 v3 = Some (ret, ppos', s')"
        using w assms(1) by simp
      from inplace_finish_effect [OF this] show ?thesis using Break_loop by simp
    next
      case (Next_iter s3 v3)
      then have "inplace_write_finish need_mutex ppos (w_num_blocks ?v0) s3 v3 = Some (ret, ppos', s')"
        using w assms(1) by simp
      from inplace_finish_effect [OF this] show ?thesis using Next_iter by simp
    qed
    then obtain post where post: "trace s' = trace (step_state r) @ post"
       "\<not> w_update_log (step_vars r) \<longrightarrow> list_all (\<lambda>e. \<not> is_log_event e) post
                 \<and> log_tail s' = log_tail (step_state r) \<and> tree s' = tree (step_state r)
                 \<and> log s' = log (step_state r)"
      by blast
    have ne: "new_events s s' = ?pre @ evs @ post"
      by (rule new_events_append) (simp add: post(1) evs(1) s2(1))
    then have na: "list_all (\<lambda>e. \<not> is_alloc_event e) evs" using assms(2) by simp
    note e = evs(2) [rule_format, OF na]
    have nl: "\<not> w_update_log (step_vars r)" using e v0 by simp
    note p = post(2) [rule_format, OF nl]
    have lr: "log_rel s s'"
      by (rule log_rel_trans [OF log_rel_trans [OF log_rel_same [of ?s2 s] conjunct2 [OF conjunct2
            [OF conjunct2 [OF conjunct2 [OF conjunct2 [OF e]]]]]] log_rel_same])
         (simp_all add: p s2)
    show ?thesis
      using ne e p s2 pre lr inplace_not_log_event [of evs] by simp
  qed
qed


theorem inplace_only_write_leaves_log_witness:
  "\<exists>s'. nova_inplace_file_write (two_page_file\<lparr>data_csum := 0\<rparr>) True (replicate 20 0x42) 20 10 True
          = Some (20, 30, s')
        \<and> list_all (\<lambda>e. \<not> is_alloc_event e) (new_events (two_page_file\<lparr>data_csum := 0\<rparr>) s')
        \<and> log_tail s' = log_tail (two_page_file\<lparr>data_csum := 0\<rparr>)
        \<and> tree s' = tree (two_page_file\<lparr>data_csum := 0\<rparr>)
        \<and> list_all (\<lambda>e. \<not> is_log_event e) (new_events (two_page_file\<lparr>data_csum := 0\<rparr>) s')
        \<and> log_rel (two_page_file\<lparr>data_csum := 0\<rparr>) s'"
proof -
  let ?s = "two_page_file\<lparr>data_csum := 0\<rparr>"
  have "\<exists>s'. nova_inplace_file_write ?s True (replicate 20 0x42) 20 10 True = Some (20, 30, s')
             \<and> trace s' = [EvSbStartWrite, EvInodeLock, EvInplaceUpdate 8192,
                            EvInodeUnlock, EvSbEndWrite]"
    by (simp add: write_eval nova_consts two_page_file_def empty_file_def)
  then obtain s' where w: "nova_inplace_file_write ?s True (replicate 20 0x42) 20 10 True
                             = Some (20, 30, s')"
    and tr: "trace s' = [EvSbStartWrite, EvInodeLock, EvInplaceUpdate 8192,
                            EvInodeUnlock, EvSbEndWrite]"
    by blast
  have na: "list_all (\<lambda>e. \<not> is_alloc_event e) (new_events ?s s')"
    by (simp add: new_events_def tr two_page_file_def empty_file_def)
  from inplace_only_write_leaves_log [OF w na] w na show ?thesis by blast
qed


subsection \<open>Where a run writes\<close>

lemma pmem_write_outside:
  "a < dst \<or> dst + length bs \<le> a \<Longrightarrow> pmem_write m dst bs a = m a"
  by (auto simp: pmem_write_def)

lemma pmem_write_inside:
  "dst \<le> a \<Longrightarrow> a < dst + length bs \<Longrightarrow> pmem_write m dst bs a = bs ! (a - dst)"
  by (simp add: pmem_write_def)

lemma partial_block_outside:
  assumes "a < k + off \<or> k + off + l \<le> a"
  shows "pmem (nova_handle_partial_block s e i off l k) a = pmem s a"
  using assms
  by (cases e)
     (auto simp: nova_handle_partial_block_def nova_copy_partial_block_def Let_def
        pmem_write_def pmem_read_def)

lemma hht_outside:
  assumes "a < kmem \<or> kmem + ((count + pos mod s_blocksize - 1) div s_blocksize + 1) * s_blocksize \<le> a"
  shows "pmem (nova_handle_head_tail_blocks s pos count kmem) a = pmem s a"
proof -
  let ?nb = "(count + pos mod s_blocksize - 1) div s_blocksize + 1"
  let ?off = "pos mod nova_inode_blk_size"
  let ?eo = "(pos + count) mod nova_inode_blk_size"
  let ?s1 = "if ?off \<noteq> 0
             then nova_handle_partial_block s (nova_get_write_entry s (pos div s_blocksize))
                    (pos div s_blocksize) 0 ?off kmem
             else s"
  have off: "?off < s_blocksize" by (simp add: nova_consts)
  have eo: "?eo < s_blocksize" by (simp add: nova_consts)
  have nb: "s_blocksize \<le> ?nb * s_blocksize" by simp
  have a1: "pmem ?s1 a = pmem s a"
  proof (cases "?off \<noteq> 0")
    case True
    have "a < kmem + 0 \<or> kmem + 0 + ?off \<le> a" using assms off nb by auto
    from partial_block_outside [OF this] True show ?thesis by simp
  next
    case False
    then show ?thesis by simp
  qed
  have a2: "pmem (nova_handle_partial_block ?s1 e i ?eo (s_blocksize - ?eo)
                    (kmem + (?nb - 1) * s_blocksize)) a = pmem ?s1 a" for e i
  proof (rule partial_block_outside)
    have "(?nb - 1) * s_blocksize + s_blocksize = ?nb * s_blocksize"
      by (simp add: algebra_simps)
    then show "a < kmem + (?nb - 1) * s_blocksize + ?eo
          \<or> kmem + (?nb - 1) * s_blocksize + ?eo + (s_blocksize - ?eo) \<le> a"
      using assms eo by auto
  qed
  show ?thesis
    unfolding nova_handle_head_tail_blocks_def Let_def
    using a1 a2 by (simp split: if_splits)
qed


lemma run_bytes_le: "run_bytes allocated offset count \<le> s_blocksize * nat allocated - offset"
  "run_bytes allocated offset count \<le> count"
  by (simp_all add: run_bytes_def)

lemma run_copy_copied:
  assumes "run_copy buf merge kmem bytes s v = (copied, s3)"
  shows "copied = min bytes (length buf - w_bufpos v)"
  using assms by (auto simp: run_copy_def memcpy_to_pmem_nocache_def Let_def)

lemma run_copy_outside:
  assumes rc: "run_copy buf merge kmem bytes s v = (copied, s3)"
      and le: "bytes \<le> s_blocksize * n - w_pos v mod s_blocksize"
      and n: "0 < n"
      and out: "a < kmem \<or> kmem + n * s_blocksize \<le> a"
  shows "pmem s3 a = pmem s a"
proof -
  let ?off = "w_pos v mod nova_inode_blk_size"
  let ?s2 = "if merge \<and> (?off \<noteq> 0 \<or> (?off + bytes) mod PAGE_SIZE \<noteq> 0)
             then nova_handle_head_tail_blocks s (w_pos v) bytes kmem else s"
  have off: "?off = w_pos v mod s_blocksize" "?off < s_blocksize" by (simp_all add: nova_consts)
  have "(bytes + w_pos v mod s_blocksize - 1) div s_blocksize < n"
  proof -
    have "bytes + w_pos v mod s_blocksize - 1 < s_blocksize * n"
      using le n off by (auto simp: nova_consts)
    then show ?thesis
      by (simp add: less_mult_imp_div_less mult.commute)
  qed
  then have "(bytes + w_pos v mod s_blocksize - 1) div s_blocksize + 1 \<le> n"
    by simp
  then have "((bytes + w_pos v mod s_blocksize - 1) div s_blocksize + 1) * s_blocksize
               \<le> n * s_blocksize"
    by (rule mult_le_mono1)
  then have "a < kmem \<or> kmem + ((bytes + w_pos v mod s_blocksize - 1) div s_blocksize + 1) * s_blocksize \<le> a"
    using out by auto
  from hht_outside [OF this] have s2: "pmem ?s2 a = pmem s a" by simp
  have s3: "s3 = snd (memcpy_to_pmem_nocache ?s2 (kmem + ?off) buf (w_bufpos v) bytes)"
    using rc by (simp add: run_copy_def Let_def split_beta)
  have "a < kmem + ?off \<or> kmem + ?off + length (take bytes (drop (w_bufpos v) buf)) \<le> a"
    using out le off n by (auto simp: nova_consts algebra_simps)
  then have "pmem s3 a = pmem ?s2 a"
    unfolding s3 memcpy_to_pmem_nocache_def Let_def
    by (simp add: pmem_write_outside)
  with s2 show ?thesis by simp
qed

lemma run_copy_data:
  assumes rc: "run_copy buf merge kmem bytes s v = (copied, s3)"
      and i: "i < copied"
  shows "pmem s3 (kmem + w_pos v mod nova_inode_blk_size + i) = buf ! (w_bufpos v + i)"
proof -
  let ?off = "w_pos v mod nova_inode_blk_size"
  let ?s2 = "if merge \<and> (?off \<noteq> 0 \<or> (?off + bytes) mod PAGE_SIZE \<noteq> 0)
             then nova_handle_head_tail_blocks s (w_pos v) bytes kmem else s"
  have s3: "s3 = snd (memcpy_to_pmem_nocache ?s2 (kmem + ?off) buf (w_bufpos v) bytes)"
    using rc by (simp add: run_copy_def Let_def split_beta)
  have c: "copied = min bytes (length buf - w_bufpos v)" by (rule run_copy_copied [OF rc])
  have le: "w_bufpos v \<le> length buf" using i c by arith
  show ?thesis
    unfolding s3 memcpy_to_pmem_nocache_def Let_def
    using i c le by (simp add: pmem_write_def nth_drop)
qed


subsection \<open>The runs of the in-place writer\<close>

lemma set_begin_tail_fields [simp]:
  "w_blocknr (set_begin_tail v) = w_blocknr v"
  "w_allocated (set_begin_tail v) = w_allocated v"
  "w_update (set_begin_tail v) = w_update v"
  "w_update_log (set_begin_tail v) = w_update_log v"
  "w_pos (set_begin_tail v) = w_pos v"
  "w_count (set_begin_tail v) = w_count v"
  "w_bufpos (set_begin_tail v) = w_bufpos v"
  "w_num_blocks (set_begin_tail v) = w_num_blocks v"
  "w_written (set_begin_tail v) = w_written v"
  "w_status (set_begin_tail v) = w_status v"
  by (simp_all add: set_begin_tail_def)

lemma inplace_run_frame:
  assumes run: "inplace_write_run buf epoch time hf entry blk_off s v = r"
      and al: "0 < w_allocated v"
  shows "w_blocknr (step_vars r) = w_blocknr v \<and> w_allocated (step_vars r) = w_allocated v
         \<and> free_blocks (step_state r) = free_blocks s
         \<and> (\<forall>a. a < blk_off \<or> blk_off + nat (w_allocated v) * s_blocksize \<le> a
                \<longrightarrow> pmem (step_state r) a = pmem s a)
         \<and> (hf \<longrightarrow> (\<forall>a. a \<noteq> nova_get_append_head s (tail (w_update v))
                        \<longrightarrow> log (step_state r) a = log s a))"
proof -
  let ?bytes = "run_bytes (w_allocated v) (w_pos v mod nova_inode_blk_size) (w_count v)"
  have le: "?bytes \<le> s_blocksize * nat (w_allocated v) - w_pos v mod s_blocksize"
    using run_bytes_le(1) [of "w_allocated v" "w_pos v mod nova_inode_blk_size" "w_count v"]
    by (simp add: nova_consts)
  have n: "0 < nat (w_allocated v)" using al by simp
  have pm: "\<forall>a. a < blk_off \<or> blk_off + nat (w_allocated v) * s_blocksize \<le> a
                \<longrightarrow> pmem s3 a = pmem s a"
    if "run_copy buf hf (nova_get_block blk_off) ?bytes s v = (copied, s3)" for copied s3
    using run_copy_outside [OF that le n] by (simp add: nova_get_block_def)
  from run show ?thesis
  proof (cases rule: inplace_write_runE)
    case (protect_fail copied s3 pret s4)
    note a = pmem_onlyD [OF run_copy_pmem_only [OF protect_fail(1)]]
    note b = csum_onlyD [OF conjunct1 [OF run_protect_cases [OF protect_fail(2)]]]
    show ?thesis unfolding protect_fail(4) using pm [OF protect_fail(1)]
      by (simp add: a b)
  next
    case (append_fail copied s3 s4 aret s5 update1)
    note a = pmem_onlyD [OF run_copy_pmem_only [OF append_fail(2)]]
    note b = csum_onlyD [OF conjunct1 [OF run_protect_cases [OF append_fail(3)]]]
    show ?thesis unfolding append_fail(6)
      using pm [OF append_fail(2)] append_cases [OF append_fail(4)] append_fail(5)
      by (auto simp: a b)
  next
    case (ran_fill copied s3 s4 s5 update1 v4)
    note a = pmem_onlyD [OF run_copy_pmem_only [OF ran_fill(2)]]
    note b = csum_onlyD [OF conjunct1 [OF run_protect_cases [OF ran_fill(3)]]]
    have h: "nova_get_append_head s4 (tail (w_update v)) = nova_get_append_head s (tail (w_update v))"
      by (simp add: nova_get_append_head_def next_log_page_def a b)
    show ?thesis unfolding ran_fill(6) ran_fill(5)
      using pm [OF ran_fill(2)] append_cases [OF ran_fill(4)] h
      by (auto simp: a b)
  next
    case (ran_inplace copied s3 s4 s5 v4)
    note a = pmem_onlyD [OF run_copy_pmem_only [OF ran_inplace(2)]]
    note b = csum_onlyD [OF conjunct1 [OF run_protect_cases [OF ran_inplace(3)]]]
    show ?thesis unfolding ran_inplace(6) ran_inplace(5) ran_inplace(4)
      using pm [OF ran_inplace(2)] ran_inplace(1)
      by (auto simp: a b nova_inplace_update_write_entry_def log_event_def)
  qed
qed


lemma block_outside:
  assumes "a div PAGE_SIZE \<notin> {b..<b + k}"
  shows "a < b * PAGE_SIZE \<or> b * PAGE_SIZE + k * s_blocksize \<le> a"
proof -
  have "a div 4096 < b \<or> b + k \<le> a div 4096" using assms by (auto simp: PAGE_SIZE_def)
  then have "a < b * 4096 \<or> b * 4096 + k * 4096 \<le> a" by arith
  then show ?thesis by (simp add: nova_consts)
qed

lemma run_file_size_cong: "i_size s' = i_size s \<Longrightarrow> run_file_size c s' v = run_file_size c s v"
  by (simp add: run_file_size_def)

text \<open>What a run of the in-place writer writes: the bytes of the user buffer.\<close>

lemma inplace_run_data:
  assumes run: "inplace_write_run buf epoch time hf entry blk_off s v = r"
      and i: "i < min (run_bytes (w_allocated v) (w_pos v mod nova_inode_blk_size) (w_count v))
                      (length buf - w_bufpos v)"
  shows "pmem (step_state r) (blk_off + w_pos v mod nova_inode_blk_size + i) = buf ! (w_bufpos v + i)"
proof -
  let ?bytes = "run_bytes (w_allocated v) (w_pos v mod nova_inode_blk_size) (w_count v)"
  have pm: "pmem s3 (blk_off + w_pos v mod nova_inode_blk_size + i) = buf ! (w_bufpos v + i)"
    if "run_copy buf hf (nova_get_block blk_off) ?bytes s v = (copied, s3)" for copied s3
    using run_copy_data [OF that] run_copy_copied [OF that] i by (simp add: nova_get_block_def)
  from run show ?thesis
  proof (cases rule: inplace_write_runE)
    case (protect_fail copied s3 pret s4)
    note b = csum_onlyD [OF conjunct1 [OF run_protect_cases [OF protect_fail(2)]]]
    show ?thesis unfolding protect_fail(4) using pm [OF protect_fail(1)] by (simp add: b)
  next
    case (append_fail copied s3 s4 aret s5 update1)
    note b = csum_onlyD [OF conjunct1 [OF run_protect_cases [OF append_fail(3)]]]
    show ?thesis unfolding append_fail(6)
      using pm [OF append_fail(2)] append_cases [OF append_fail(4)] append_fail(5)
      by (auto simp: b)
  next
    case (ran_fill copied s3 s4 s5 update1 v4)
    note b = csum_onlyD [OF conjunct1 [OF run_protect_cases [OF ran_fill(3)]]]
    show ?thesis unfolding ran_fill(6)
      using pm [OF ran_fill(2)] append_cases [OF ran_fill(4)]
      by (auto simp: b)
  next
    case (ran_inplace copied s3 s4 s5 v4)
    note b = csum_onlyD [OF conjunct1 [OF run_protect_cases [OF ran_inplace(3)]]]
    show ?thesis unfolding ran_inplace(6) ran_inplace(4)
      using pm [OF ran_inplace(2)]
      by (auto simp: b nova_inplace_update_write_entry_def log_event_def)
  qed
qed

text \<open>A run in place appends nothing; when it does not fail it marks the entry.\<close>

lemma inplace_run_marks:
  assumes run: "inplace_write_run buf epoch time False entry blk_off s v = r"
  shows "tail (w_update (step_vars r)) = tail (w_update v) \<and> log_rel s (step_state r)
         \<and> ((\<forall>ret s1 v1. r \<noteq> Goto_out ret s1 v1) \<longrightarrow>
               epoch_id (log (step_state r) entry) = epoch
               \<and> updating (log (step_state r) entry) = 0
               \<and> trace (step_state r) = trace s @ [EvInplaceUpdate entry])"
  using run
proof (cases rule: inplace_write_runE)
  case (protect_fail copied s3 pret s4)
  note a = pmem_onlyD [OF run_copy_pmem_only [OF protect_fail(1)]]
  note b = csum_onlyD [OF conjunct1 [OF run_protect_cases [OF protect_fail(2)]]]
  show ?thesis unfolding protect_fail(4) by (simp add: a b log_rel_same)
next
  case (append_fail copied s3 s4 aret s5 update1)
  then show ?thesis by simp
next
  case (ran_fill copied s3 s4 s5 update1 v4)
  then show ?thesis by simp
next
  case (ran_inplace copied s3 s4 s5 v4)
  note a = pmem_onlyD [OF run_copy_pmem_only [OF ran_inplace(2)]]
  note b = csum_onlyD [OF conjunct1 [OF run_protect_cases [OF ran_inplace(3)]]]
  have l4: "log_rel s s4" by (simp add: a b log_rel_same)
  have l5: "log_rel s4 s5" unfolding ran_inplace(4) by (rule inplace_update_log_rel)
  have e: "epoch_id (log s5 entry) = epoch" "updating (log s5 entry) = 0"
    "trace s5 = trace s @ [EvInplaceUpdate entry]"
    unfolding ran_inplace(4)
    by (simp_all add: nova_inplace_update_write_entry_def log_event_def a b)
  show ?thesis unfolding ran_inplace(6) ran_inplace(5)
    using log_rel_trans [OF l4 l5] e by simp
qed

text \<open>A hole-fill run that does not fail appends the entry of its blocks.\<close>

lemma inplace_run_appends:
  assumes run: "inplace_write_run buf epoch time True entry blk_off s v = r"
      and ok: "\<forall>ret s1 v1. r \<noteq> Goto_out ret s1 v1"
  shows "nova_get_append_head s (tail (w_update v)) \<noteq> 0
         \<and> log (step_state r) (nova_get_append_head s (tail (w_update v)))
             = nova_init_file_write_entry epoch (w_pos v div s_blocksize) (nat (w_allocated v))
                 (w_blocknr v) time
                 (run_file_size
                    (min (run_bytes (w_allocated v) (w_pos v mod nova_inode_blk_size) (w_count v))
                         (length buf - w_bufpos v)) s v)
         \<and> tail (w_update (step_vars r)) = nova_get_append_head s (tail (w_update v)) + entry_size
         \<and> trace (step_state r) = trace s @ [EvAppend (nova_get_append_head s (tail (w_update v)))]"
  using run
proof (cases rule: inplace_write_runE)
  case (protect_fail copied s3 pret s4)
  then show ?thesis using ok by simp
next
  case (append_fail copied s3 s4 aret s5 update1)
  then show ?thesis using ok by simp
next
  case (ran_fill copied s3 s4 s5 update1 v4)
  note a = pmem_onlyD [OF run_copy_pmem_only [OF ran_fill(2)]]
  note b = csum_onlyD [OF conjunct1 [OF run_protect_cases [OF ran_fill(3)]]]
  note c = run_copy_copied [OF ran_fill(2)]
  have h: "nova_get_append_head s4 (tail (w_update v)) = nova_get_append_head s (tail (w_update v))"
    by (simp add: nova_get_append_head_def next_log_page_def a b)
  have sz: "run_file_size copied s4 v = run_file_size copied s v"
    by (rule run_file_size_cong) (simp add: a b)
  show ?thesis unfolding ran_fill(6) ran_fill(5)
    using append_cases [OF ran_fill(4)] h sz c
    by (auto simp: a b ENOSPC_def)
next
  case (ran_inplace copied s3 s4 s5 v4)
  then show ?thesis by simp
qed


lemma ent_blks_no_wrap:
  assumes "pg \<le> sb" "sb < pg + np" "np < 2 ^ 64"
  shows "nat ((int np - (int sb - int pg)) mod 2 ^ 64) = np - (sb - pg)"
proof -
  have "int np - (int sb - int pg) = int (np - (sb - pg))" using assms by simp
  moreover have "int (np - (sb - pg)) < 2 ^ 64" using assms(3) by simp
  ultimately have "(int np - (int sb - int pg)) mod 2 ^ 64 = int (np - (sb - pg))"
    by simp
  then show ?thesis by simp
qed

text \<open>
  C3 (as amended): a run of the in-place writer on a page that an existing entry covers
  returns, and it is a run in place (the blocks of the run are those of the entry,
  nothing is allocated) exactly when the epoch of the entry is the epoch of the
  writer. In both cases the bytes of the user buffer are written into the blocks of
  the run. A run in place writes only inside the blocks of the entry that it covers,
  appends nothing (the tail of the log is as before and the entries differ at most in
  the size, the epoch and the updating flag) and, unless it fails, leaves the entry
  with the epoch of the writer. When the epochs differ the run allocates: its blocks
  were free before, only they are written (every byte of a block that was not free, so
  every byte of the blocks of the old entry, is as before), the old entry in the log
  is as before, and unless the run fails it appends the entry of the new blocks at the
  head of the log.
\<close>

theorem inplace_run_decided_by_epoch:
  assumes ent: "nova_get_write_entry s (w_pos v div s_blocksize) = Some e"
      and cov: "pgoff (log s e) \<le> w_pos v div s_blocksize"
               "w_pos v div s_blocksize < pgoff (log s e) + num_pages (log s e)"
      and np: "num_pages (log s e) < 2 ^ 64"
      and nb: "0 < w_num_blocks v"
      and used: "get_nvmm s e (w_pos v div s_blocksize) \<notin> free_blocks s"
  shows "\<exists>r. inplace_write_step buf epoch time s v = Some r
          \<and> ((epoch_id (log s e) = epoch)
               = (0 < w_allocated (step_vars r)
                  \<and> w_blocknr (step_vars r) = get_nvmm s e (w_pos v div s_blocksize)
                  \<and> free_blocks (step_state r) = free_blocks s))
          \<and> (0 < w_allocated (step_vars r) \<longrightarrow>
                (\<forall>i < min (run_bytes (w_allocated (step_vars r))
                              (w_pos v mod nova_inode_blk_size) (w_count v))
                           (length buf - w_bufpos v).
                    pmem (step_state r)
                      (w_blocknr (step_vars r) * PAGE_SIZE + w_pos v mod nova_inode_blk_size + i)
                      = buf ! (w_bufpos v + i)))
          \<and> (epoch_id (log s e) = epoch \<longrightarrow>
                (\<forall>a. a div PAGE_SIZE \<notin> {w_blocknr (step_vars r) ..<
                         w_blocknr (step_vars r) + nat (w_allocated (step_vars r))}
                      \<longrightarrow> pmem (step_state r) a = pmem s a)
                \<and> tail (w_update (step_vars r)) = tail (w_update v)
                \<and> log_rel s (step_state r)
                \<and> ((\<forall>ret s1 v1. r \<noteq> Goto_out ret s1 v1) \<longrightarrow>
                      epoch_id (log (step_state r) e) = epoch
                      \<and> trace (step_state r) = trace s @ [EvInplaceUpdate e]))
          \<and> (epoch_id (log s e) \<noteq> epoch \<longrightarrow>
                (\<forall>a. a div PAGE_SIZE \<notin> free_blocks s \<longrightarrow> pmem (step_state r) a = pmem s a)
                \<and> (0 < w_allocated (step_vars r) \<longrightarrow>
                      {w_blocknr (step_vars r) ..<
                         w_blocknr (step_vars r) + nat (w_allocated (step_vars r))} \<subseteq> free_blocks s
                      \<and> free_blocks (step_state r)
                          = free_blocks s - {w_blocknr (step_vars r) ..<
                               w_blocknr (step_vars r) + nat (w_allocated (step_vars r))})
                \<and> (nova_get_append_head s (tail (w_update v)) \<noteq> e
                      \<longrightarrow> log (step_state r) e = log s e)
                \<and> ((\<forall>ret s1 v1. r \<noteq> Goto_out ret s1 v1) \<longrightarrow>
                      nova_get_append_head s (tail (w_update v)) \<noteq> 0
                      \<and> log (step_state r) (nova_get_append_head s (tail (w_update v)))
                          = nova_init_file_write_entry epoch (w_pos v div s_blocksize)
                              (nat (w_allocated (step_vars r))) (w_blocknr (step_vars r)) time
                              (run_file_size
                                 (min (run_bytes (w_allocated (step_vars r))
                                         (w_pos v mod nova_inode_blk_size) (w_count v))
                                      (length buf - w_bufpos v)) s v)
                      \<and> tail (w_update (step_vars r))
                          = nova_get_append_head s (tail (w_update v)) + entry_size
                      \<and> trace (step_state r)
                          = trace s @ [EvAlloc (w_blocknr (step_vars r))
                                         (nat (w_allocated (step_vars r))),
                                       EvAppend (nova_get_append_head s (tail (w_update v)))]))"
proof -
  define sb where "sb = w_pos v div s_blocksize"
  define eb0 where "eb0 = (if reassigned (log s e) = 0
              then nat ((int (num_pages (log s e)) - (int sb - int (pgoff (log s e)))) mod 2 ^ 64)
              else 1)"
  define eb where "eb = (if eb0 > w_num_blocks v then w_num_blocks v else eb0)"
  define off where "off = w_pos v mod nova_inode_blk_size"
  have chk: "nova_check_existing_entry s (w_num_blocks v) sb True epoch
               = Some (eb, Some e, epoch_id (log s e) = epoch)"
    using ent by (simp add: nova_check_existing_entry_def nova_get_write_entry_def Let_def
        sb_def eb_def eb0_def)
  have "eb0 = (if reassigned (log s e) = 0
                then num_pages (log s e) - (sb - pgoff (log s e)) else 1)"
    unfolding eb0_def using ent_blks_no_wrap [OF cov [folded sb_def] np] by simp
  then have eb: "0 < eb" using cov nb by (auto simp: eb_def sb_def)
  have used': "get_nvmm s e sb \<notin> free_blocks s" using used by (simp add: sb_def)
  show ?thesis
  proof (cases "epoch_id (log s e) = epoch")
    case True
    define s1 where "s1 = (if data_csum s \<noteq> 0 \<or> data_parity s \<noteq> 0
               then nova_set_write_entry_updating s e 1 else s)"
    define v1 where "v1 = v\<lparr>w_blocknr := get_nvmm s e sb, w_allocated := int eb\<rparr>"
    define r where "r = inplace_write_run buf epoch time False e (get_nvmm s e sb * PAGE_SIZE) s1 v1"
    have st: "inplace_write_step buf epoch time s v = Some r"
      using chk True unfolding inplace_write_step_def Let_def sb_def [symmetric]
      by (simp add: r_def s1_def v1_def)
    have al: "0 < w_allocated v1" using eb by (simp add: v1_def)
    have v1: "w_blocknr v1 = get_nvmm s e sb" "w_allocated v1 = int eb"
      "w_pos v1 = w_pos v" "w_count v1 = w_count v" "w_bufpos v1 = w_bufpos v"
      "w_update v1 = w_update v"
      by (simp_all add: v1_def)
    note f = inplace_run_frame [OF r_def [symmetric] al]
    have s1: "free_blocks s1 = free_blocks s" "pmem s1 = pmem s" "trace s1 = trace s"
      by (simp_all add: nova_set_write_entry_updating_def s1_def)
    have l1: "log_rel s s1" using set_updating_log_rel [of s e 1] by (simp add: s1_def)
    have f1: "w_blocknr (step_vars r) = get_nvmm s e sb" "w_allocated (step_vars r) = int eb"
      "free_blocks (step_state r) = free_blocks s"
      using f v1 s1 by simp_all
    have f2: "a < get_nvmm s e sb * PAGE_SIZE \<or> get_nvmm s e sb * PAGE_SIZE + eb * s_blocksize \<le> a
              \<Longrightarrow> pmem (step_state r) a = pmem s a" for a
      using f v1 s1 by auto
    have pm: "pmem (step_state r) a = pmem s a"
      if "a div PAGE_SIZE \<notin> {w_blocknr (step_vars r) ..<
                         w_blocknr (step_vars r) + nat (w_allocated (step_vars r))}" for a
    proof -
      have "a div PAGE_SIZE \<notin> {get_nvmm s e sb ..< get_nvmm s e sb + eb}"
        using that f1 by simp
      from f2 [OF block_outside [OF this]] show ?thesis .
    qed
    have dt: "pmem (step_state r) (w_blocknr (step_vars r) * PAGE_SIZE + off + i)
                = buf ! (w_bufpos v + i)"
      if "i < min (run_bytes (w_allocated (step_vars r)) off (w_count v))
                  (length buf - w_bufpos v)" for i
      using inplace_run_data [OF r_def [symmetric], of i] that
      by (simp add: v1 f1 off_def)
    note m = inplace_run_marks [OF r_def [symmetric]]
    have mk: "tail (w_update (step_vars r)) = tail (w_update v)" "log_rel s (step_state r)"
      using m log_rel_trans [OF l1] by (simp_all add: v1)
    have mk2: "epoch_id (log (step_state r) e) = epoch
               \<and> trace (step_state r) = trace s @ [EvInplaceUpdate e]"
      if "\<forall>ret s1 v1. r \<noteq> Goto_out ret s1 v1"
      using m that by (simp add: s1)
    show ?thesis
      unfolding sb_def [symmetric] off_def [symmetric]
      apply (rule exI [of _ r])
      using st True f1 eb pm dt mk mk2 by simp
  next
    case False
    obtain allocated blocknr s1 where nd:
      "nova_new_data_blocks s (w_blocknr v) sb eb = (allocated, blocknr, s1)"
      using prod_cases3 by blast
    define v1 where "v1 = v\<lparr>w_allocated := allocated, w_blocknr := blocknr\<rparr>"
    have v1: "w_blocknr v1 = blocknr" "w_allocated v1 = allocated" "w_update v1 = w_update v"
      "w_pos v1 = w_pos v" "w_count v1 = w_count v" "w_bufpos v1 = w_bufpos v"
      by (simp_all add: v1_def)
    show ?thesis
    proof (cases "allocated \<le> 0")
      case True
      have st: "inplace_write_step buf epoch time s v = Some (Goto_out allocated s1 v1)"
        using chk False nd True unfolding inplace_write_step_def Let_def sb_def [symmetric]
        by (simp add: v1_def)
      have "s1 = s" using new_data_blocks_cases [OF nd] True by (auto simp: nova_consts)
      then show ?thesis
        unfolding sb_def [symmetric] off_def [symmetric]
        apply (intro exI [of _ "Goto_out allocated s1 v1"])
        using st False True v1 by simp
    next
      case pos: False
      define r where "r = inplace_write_run buf epoch time True e (nova_get_block_off blocknr) s1 v1"
      have st: "inplace_write_step buf epoch time s v = Some r"
        using chk False nd pos unfolding inplace_write_step_def Let_def sb_def [symmetric]
        by (simp add: v1_def r_def)
      obtain k where k: "allocated = int k" "0 < k" "{blocknr..<blocknr + k} \<subseteq> free_blocks s"
         "s1 = s\<lparr>free_blocks := free_blocks s - {blocknr..<blocknr + k},
                  trace := trace s @ [EvAlloc blocknr k]\<rparr>"
        using new_data_blocks_cases [OF nd] pos by (auto simp: nova_consts)
      have al: "0 < w_allocated v1" using pos v1 by simp
      note f = inplace_run_frame [OF r_def [symmetric] al]
      have f1: "w_blocknr (step_vars r) = blocknr" "w_allocated (step_vars r) = int k"
        "free_blocks (step_state r) = free_blocks s - {blocknr..<blocknr + k}"
        using f v1 k by simp_all
      have f2: "a < blocknr * PAGE_SIZE \<or> blocknr * PAGE_SIZE + k * s_blocksize \<le> a
              \<Longrightarrow> pmem (step_state r) a = pmem s a" for a
        using f v1 k by (auto simp: nova_get_block_off_def)
      have bn: "blocknr \<noteq> get_nvmm s e sb"
        using k(2,3) used' by (auto simp: subset_iff)
      have pm: "pmem (step_state r) a = pmem s a" if "a div PAGE_SIZE \<notin> free_blocks s" for a
      proof -
        have "a div PAGE_SIZE \<notin> {blocknr ..< blocknr + k}"
          using that k by auto
        from f2 [OF block_outside [OF this]] show ?thesis .
      qed
      have hd: "nova_get_append_head s1 (tail (w_update v1)) = nova_get_append_head s (tail (w_update v))"
        by (simp add: nova_get_append_head_def next_log_page_def k(4) v1)
      have lg: "log (step_state r) e = log s e"
        if "nova_get_append_head s (tail (w_update v)) \<noteq> e"
        using f that hd k(4) by simp
      have dt: "pmem (step_state r) (w_blocknr (step_vars r) * PAGE_SIZE + off + i)
                  = buf ! (w_bufpos v + i)"
        if "i < min (run_bytes (w_allocated (step_vars r)) off (w_count v))
                    (length buf - w_bufpos v)" for i
        using inplace_run_data [OF r_def [symmetric], of i] that
        by (simp add: v1 f1 k(1) off_def nova_get_block_off_def)
      have sz: "run_file_size c s1 v1 = run_file_size c s v" for c
        by (simp add: run_file_size_def k(4) v1)
      have ap: "nova_get_append_head s (tail (w_update v)) \<noteq> 0
         \<and> log (step_state r) (nova_get_append_head s (tail (w_update v)))
             = nova_init_file_write_entry epoch sb (nat (w_allocated (step_vars r)))
                 (w_blocknr (step_vars r)) time
                 (run_file_size
                    (min (run_bytes (w_allocated (step_vars r)) off (w_count v))
                         (length buf - w_bufpos v)) s v)
         \<and> tail (w_update (step_vars r)) = nova_get_append_head s (tail (w_update v)) + entry_size
         \<and> trace (step_state r)
             = trace s @ [EvAlloc (w_blocknr (step_vars r)) (nat (w_allocated (step_vars r))),
                          EvAppend (nova_get_append_head s (tail (w_update v)))]"
        if "\<forall>ret s1 v1. r \<noteq> Goto_out ret s1 v1"
        using inplace_run_appends [OF r_def [symmetric] that] hd
        by (simp add: v1 f1 k(1) sz off_def sb_def) (simp add: k(4))
      show ?thesis
        unfolding sb_def [symmetric] off_def [symmetric]
        apply (rule exI [of _ r])
        using st False f1 k(2,3) bn pm lg dt ap by simp
    qed
  qed
qed


theorem inplace_run_decided_by_epoch_witness:
  "epoch_id (log (two_page_file\<lparr>data_csum := 0\<rparr>) 8192) = 1
   \<and> (\<exists>r. inplace_write_step (replicate 20 0x42) 1 7 (two_page_file\<lparr>data_csum := 0\<rparr>)
             (write_vars_init (two_page_file\<lparr>data_csum := 0\<rparr>) 10 20) = Some r
          \<and> w_allocated (step_vars r) = 1 \<and> w_blocknr (step_vars r) = 100
          \<and> free_blocks (step_state r) = {102, 200}
          \<and> pmem (step_state r) 409610 = 0x42 \<and> pmem (step_state r) 409629 = 0x42
          \<and> pmem (step_state r) 413696 = 0x58
          \<and> tail (w_update (step_vars r)) = 8320
          \<and> trace (step_state r) = [EvInplaceUpdate 8192])
   \<and> (\<exists>r. inplace_write_step (replicate 20 0x42) 2 7 (two_page_file\<lparr>data_csum := 0\<rparr>)
             (write_vars_init (two_page_file\<lparr>data_csum := 0\<rparr>) 10 20) = Some r
          \<and> w_allocated (step_vars r) = 1 \<and> w_blocknr (step_vars r) = 102
          \<and> free_blocks (step_state r) = {200}
          \<and> pmem (step_state r) 417802 = 0x42 \<and> pmem (step_state r) 417821 = 0x42
          \<and> pmem (step_state r) 409610 = 0x41
          \<and> log (step_state r) 8192 = log (two_page_file\<lparr>data_csum := 0\<rparr>) 8192
          \<and> log (step_state r) 8320 = nova_init_file_write_entry 2 0 1 102 7 8192
          \<and> tail (w_update (step_vars r)) = 8384
          \<and> trace (step_state r) = [EvAlloc 102 1, EvAppend 8320])"
proof -
  let ?s = "two_page_file\<lparr>data_csum := 0\<rparr>"
  let ?v = "write_vars_init ?s 10 20"
  let ?buf = "replicate 20 (0x42::byte)"
  have h1: "nova_get_write_entry ?s (w_pos ?v div s_blocksize) = Some 8192"
    by (simp add: write_eval nova_consts two_page_file_def empty_file_def)
  have h2: "pgoff (log ?s 8192) \<le> w_pos ?v div s_blocksize"
    by (simp add: write_eval nova_consts two_page_file_def empty_file_def)
  have h3: "w_pos ?v div s_blocksize < pgoff (log ?s 8192) + num_pages (log ?s 8192)"
    by (simp add: write_eval nova_consts two_page_file_def empty_file_def)
  have h4: "num_pages (log ?s 8192) < 2 ^ 64"
    by (simp add: write_eval two_page_file_def empty_file_def)
  have h5: "0 < w_num_blocks ?v"
    by (simp add: write_eval nova_consts)
  have g: "get_nvmm ?s 8192 (w_pos ?v div s_blocksize) = 100"
    by (simp add: write_eval nova_consts two_page_file_def empty_file_def)
  have fb: "free_blocks ?s = {102, 200}"
    by (simp add: two_page_file_def empty_file_def)
  have h6: "get_nvmm ?s 8192 (w_pos ?v div s_blocksize) \<notin> free_blocks ?s"
    by (simp add: g fb)
  have ep: "epoch_id (log ?s 8192) = 1"
    by (simp add: write_eval two_page_file_def empty_file_def)
  have vs: "w_pos ?v = 10" "w_count ?v = 20" "w_bufpos ?v = 0" "tail (w_update ?v) = 8320"
    by (simp_all add: write_vars_init_def two_page_file_def empty_file_def)
  have pm: "pmem ?s 409610 = 0x41" "pmem ?s 413696 = 0x58" "trace ?s = []"
    by (simp_all add: two_page_file_def empty_file_def)
  have hd: "nova_get_append_head ?s 8320 = 8320"
    by (simp add: nova_get_append_head_def is_last_entry_def nova_consts)
  have rb: "run_bytes 1 (10 mod nova_inode_blk_size) 20 = 20"
    by (simp add: run_bytes_def nova_consts)
  have sz: "run_file_size 20 ?s ?v = 8192"
    by (simp add: run_file_size_def write_vars_init_def two_page_file_def empty_file_def)
  have e1: "\<exists>s1 v1. inplace_write_step ?buf 1 7 ?s ?v = Some (Next_iter s1 v1) \<and> w_allocated v1 = 1"
    by (simp add: write_eval nova_consts two_page_file_def empty_file_def)
  have e2: "\<exists>s1 v1. inplace_write_step ?buf 2 7 ?s ?v = Some (Next_iter s1 v1) \<and> w_allocated v1 = 1
                    \<and> w_blocknr v1 = 102"
    by (simp add: write_eval nova_consts two_page_file_def empty_file_def pick_lowest_def)
  from inplace_run_decided_by_epoch [OF h1 h2 h3 h4 h5 h6, of ?buf 1 7]
  obtain r where r: "inplace_write_step ?buf 1 7 ?s ?v = Some r"
    and a1: "w_blocknr (step_vars r) = 100" "free_blocks (step_state r) = {102, 200}"
    and a2: "0 < w_allocated (step_vars r) \<longrightarrow>
                (\<forall>i < min (run_bytes (w_allocated (step_vars r)) (10 mod nova_inode_blk_size) 20) 20.
                    pmem (step_state r) (w_blocknr (step_vars r) * PAGE_SIZE
                       + 10 mod nova_inode_blk_size + i) = ?buf ! i)"
    and a3: "\<forall>a. a div PAGE_SIZE \<notin> {w_blocknr (step_vars r) ..<
                         w_blocknr (step_vars r) + nat (w_allocated (step_vars r))}
                      \<longrightarrow> pmem (step_state r) a = pmem ?s a"
    and a4: "tail (w_update (step_vars r)) = 8320"
    and a5: "(\<forall>ret s1 v1. r \<noteq> Goto_out ret s1 v1) \<longrightarrow>
                      trace (step_state r) = [EvInplaceUpdate 8192]"
    using ep g fb vs pm by auto
  from e1 r have r1: "w_allocated (step_vars r) = 1" "\<forall>ret s1 v1. r \<noteq> Goto_out ret s1 v1"
    by auto
  have d1: "pmem (step_state r) 409610 = 0x42" "pmem (step_state r) 409629 = 0x42"
    using a2 [rule_format, of 0] a2 [rule_format, of 19] r1 a1 rb
    by (simp_all add: nova_consts)
  have d2: "pmem (step_state r) 413696 = 0x58"
    using a3 [rule_format, of 413696] r1 a1 pm by (simp add: nova_consts)
  have A: "\<exists>r. inplace_write_step ?buf 1 7 ?s ?v = Some r
          \<and> w_allocated (step_vars r) = 1 \<and> w_blocknr (step_vars r) = 100
          \<and> free_blocks (step_state r) = {102, 200}
          \<and> pmem (step_state r) 409610 = 0x42 \<and> pmem (step_state r) 409629 = 0x42
          \<and> pmem (step_state r) 413696 = 0x58
          \<and> tail (w_update (step_vars r)) = 8320
          \<and> trace (step_state r) = [EvInplaceUpdate 8192]"
    using r r1 a1 d1 d2 a4 a5 by blast
  from inplace_run_decided_by_epoch [OF h1 h2 h3 h4 h5 h6, of ?buf 2 7]
  obtain q where q: "inplace_write_step ?buf 2 7 ?s ?v = Some q"
    and b2: "0 < w_allocated (step_vars q) \<longrightarrow>
                (\<forall>i < min (run_bytes (w_allocated (step_vars q)) (10 mod nova_inode_blk_size) 20) 20.
                    pmem (step_state q) (w_blocknr (step_vars q) * PAGE_SIZE
                       + 10 mod nova_inode_blk_size + i) = ?buf ! i)"
    and b3: "\<forall>a. a div PAGE_SIZE \<notin> free_blocks ?s \<longrightarrow> pmem (step_state q) a = pmem ?s a"
    and b4: "0 < w_allocated (step_vars q) \<longrightarrow>
               free_blocks (step_state q)
                  = free_blocks ?s - {w_blocknr (step_vars q) ..<
                               w_blocknr (step_vars q) + nat (w_allocated (step_vars q))}"
    and b5: "log (step_state q) 8192 = log ?s 8192"
    and b6: "(\<forall>ret s1 v1. q \<noteq> Goto_out ret s1 v1) \<longrightarrow>
               log (step_state q) 8320
                 = nova_init_file_write_entry 2 0 (nat (w_allocated (step_vars q)))
                     (w_blocknr (step_vars q)) 7
                     (run_file_size
                        (min (run_bytes (w_allocated (step_vars q)) (10 mod nova_inode_blk_size) 20) 20)
                        ?s ?v)
               \<and> tail (w_update (step_vars q)) = 8320 + entry_size
               \<and> trace (step_state q)
                   = [EvAlloc (w_blocknr (step_vars q)) (nat (w_allocated (step_vars q))),
                      EvAppend 8320]"
    using ep vs pm hd by (auto simp: nova_consts)
  from e2 q have q1: "w_allocated (step_vars q) = 1" "w_blocknr (step_vars q) = 102"
    "\<forall>ret s1 v1. q \<noteq> Goto_out ret s1 v1"
    by auto
  have c1: "pmem (step_state q) 417802 = 0x42" "pmem (step_state q) 417821 = 0x42"
    using b2 [rule_format, of 0] b2 [rule_format, of 19] q1 rb
    by (simp_all add: nova_consts)
  have c2: "pmem (step_state q) 409610 = 0x41"
    using b3 [rule_format, of 409610] fb pm by (simp add: nova_consts)
  have c3: "free_blocks (step_state q) = {200}"
    using b4 q1 fb by auto
  have c4: "log (step_state q) 8320 = nova_init_file_write_entry 2 0 1 102 7 8192"
    "tail (w_update (step_vars q)) = 8384"
    "trace (step_state q) = [EvAlloc 102 1, EvAppend 8320]"
    using b6 q1 rb sz by (simp_all add: nova_consts)
  have B: "\<exists>r. inplace_write_step ?buf 2 7 ?s ?v = Some r
          \<and> w_allocated (step_vars r) = 1 \<and> w_blocknr (step_vars r) = 102
          \<and> free_blocks (step_state r) = {200}
          \<and> pmem (step_state r) 417802 = 0x42 \<and> pmem (step_state r) 417821 = 0x42
          \<and> pmem (step_state r) 409610 = 0x41
          \<and> log (step_state r) 8192 = log ?s 8192
          \<and> log (step_state r) 8320 = nova_init_file_write_entry 2 0 1 102 7 8192
          \<and> tail (w_update (step_vars r)) = 8384
          \<and> trace (step_state r) = [EvAlloc 102 1, EvAppend 8320]"
    using q q1 c1 c2 c3 c4 b5 by blast
  from ep A B show ?thesis by blast
qed

text \<open>
  Read for the whole call, the claim fails: a write at epoch 2 over the page of the
  entry at 8192, which is of epoch 1, ends with the reassignment pass, and the pass
  marks the old entry reassigned, counts its page invalid and gives its block 100 back
  to the allocator. The bytes of the block are as before.
\<close>

theorem epoch_write_invalidates_old_entry_counterexample:
  "epoch_id (log (two_page_file\<lparr>data_csum := 0, s_epoch_id := 2\<rparr>) 8192) = 1
   \<and> nova_get_write_entry (two_page_file\<lparr>data_csum := 0, s_epoch_id := 2\<rparr>) 0 = Some 8192
   \<and> 100 \<notin> free_blocks (two_page_file\<lparr>data_csum := 0, s_epoch_id := 2\<rparr>)
   \<and> map_option fst
        (nova_inplace_file_write (two_page_file\<lparr>data_csum := 0, s_epoch_id := 2\<rparr>) True
           (replicate 20 0x42) 20 10 True) = Some 20
   \<and> map_option (free_blocks \<circ> snd \<circ> snd)
        (nova_inplace_file_write (two_page_file\<lparr>data_csum := 0, s_epoch_id := 2\<rparr>) True
           (replicate 20 0x42) 20 10 True) = Some {100, 200}
   \<and> map_option ((\<lambda>l. (reassigned (l 8192), invalid_pages (l 8192))) \<circ> log \<circ> snd \<circ> snd)
        (nova_inplace_file_write (two_page_file\<lparr>data_csum := 0, s_epoch_id := 2\<rparr>) True
           (replicate 20 0x42) 20 10 True) = Some (1, 1)"
  by (simp add: write_eval nova_consts two_page_file_def empty_file_def pick_lowest_def)


subsection \<open>The entries a failed write leaves in the log\<close>

lemma append_head_cong:
  "next_page s1 = next_page s \<Longrightarrow> nova_get_append_head s1 t = nova_get_append_head s t"
  by (simp add: nova_get_append_head_def next_log_page_def)




lemma log_slots_length: "length (log_slots s t n) \<le> n"
  by (induction n arbitrary: t) simp_all




lemma log_slots_stop:
  assumes "log_slots s t (length hs) = hs"
      and "nova_get_append_head s (end_tail_of t hs) = 0"
  shows "log_slots s t (Suc (length hs)) = hs"
  using assms
proof (induction hs arbitrary: t)
  case Nil
  then show ?case by (simp add: end_tail_of_def)
next
  case (Cons h hs)
  from Cons.prems(1) have h: "nova_get_append_head s t \<noteq> 0" "h = nova_get_append_head s t"
    and hs: "log_slots s (h + entry_size) (length hs) = hs"
    by (auto split: if_splits)
  have e: "end_tail_of t (h # hs) = end_tail_of (h + entry_size) hs"
    by (simp add: end_tail_of_def)
  from Cons.IH [OF hs] Cons.prems(2) e
  have "log_slots s (h + entry_size) (Suc (length hs)) = hs" by simp
  then show ?case using h by simp
qed




subsection \<open>The cleanup of a failed copy-on-write write\<close>




















end
